theory Spec2Isabelle
  imports Main
begin

section \<open>Strings of the source language\<close>

text \<open>
  The program is TypeScript; its strings are sequences of UTF-16 code units. The
  embedding uses \<^typ>\<open>string\<close>, whose characters are the code units below 256
  (ASCII and the Latin-1 supplement), and gives the library functions the program calls
  (\<^verbatim>\<open>trim\<close>, \<^verbatim>\<open>toLowerCase\<close>, \<^verbatim>\<open>split\<close>, \<^verbatim>\<open>replace\<close>, the regular expressions) their
  ECMAScript meaning on that range.
\<close>

text \<open>The class \<^verbatim>\<open>\s\<close>, which is also what \<^verbatim>\<open>trim\<close> strips: TAB, LF, VT, FF, CR,
  space and the no-break space.\<close>

definition is_space :: "char \<Rightarrow> bool" where
  "is_space c = (c \<in> set [CHR 0x09, CHR 0x0A, CHR 0x0B, CHR 0x0C, CHR 0x0D, CHR '' '', CHR 0xA0])"

text \<open>The class \<^verbatim>\<open>\d\<close>.\<close>

definition is_digit :: "char \<Rightarrow> bool" where
  "is_digit c = (c \<in> set ''0123456789'')"

text \<open>The class \<^verbatim>\<open>.\<close> (no \<^verbatim>\<open>s\<close> flag): everything but a line terminator.\<close>

definition is_dot :: "char \<Rightarrow> bool" where
  "is_dot c = (c \<noteq> CHR 0x0A \<and> c \<noteq> CHR 0x0D)"

definition trim :: "string \<Rightarrow> string" where
  "trim s = rev (dropWhile is_space (rev (dropWhile is_space s)))"

text \<open>\<^verbatim>\<open>toLowerCase\<close>: the letters A-Z and the Latin-1 capitals 0xC0-0xDE (but the
  multiplication sign 0xD7) move up by 32; every other code unit below 256 is fixed.\<close>

definition toLowerChar :: "char \<Rightarrow> char" where
  "toLowerChar c =
     (let n = (of_char c :: nat)
      in if (65 \<le> n \<and> n \<le> 90) \<or> (192 \<le> n \<and> n \<le> 222 \<and> n \<noteq> 215)
         then char_of (n + 32) else c)"

definition toLowerCase :: "string \<Rightarrow> string" where
  "toLowerCase s = map toLowerChar s"

text \<open>How the flag \<^verbatim>\<open>i\<close> compares a code unit with an ASCII letter of a pattern: both are
  upper-cased, and no code unit outside ASCII is taken to an ASCII letter.\<close>

definition asciiUpper :: "char \<Rightarrow> char" where
  "asciiUpper c =
     (let n = (of_char c :: nat) in if 97 \<le> n \<and> n \<le> 122 then char_of (n - 32) else c)"

fun prefix_ci :: "string \<Rightarrow> string \<Rightarrow> bool" where
  "prefix_ci [] s = True"
| "prefix_ci (p # ps) [] = False"
| "prefix_ci (p # ps) (c # cs) = (asciiUpper p = asciiUpper c \<and> prefix_ci ps cs)"

text \<open>\<^verbatim>\<open>/pat/i.test(s)\<close> for a pattern of ASCII letters: the pattern occurs somewhere in
  \<open>s\<close>, letter case ignored.\<close>

fun test_ci :: "string \<Rightarrow> string \<Rightarrow> bool" where
  "test_ci pat [] = prefix_ci pat []"
| "test_ci pat (c # cs) = (prefix_ci pat (c # cs) \<or> test_ci pat cs)"

text \<open>\<^verbatim>\<open>String(n)\<close> and \<^verbatim>\<open>`${n}`\<close> for an array length or index \<open>n\<close>: decimal digits.\<close>

fun decimal :: "nat \<Rightarrow> string" where
  "decimal n =
     (if n < 10 then [''0123456789'' ! n]
      else decimal (n div 10) @ [''0123456789'' ! (n mod 10)])"

declare decimal.simps [simp del]

text \<open>\<^verbatim>\<open>xs.join(sep)\<close>.\<close>

fun join :: "string \<Rightarrow> string list \<Rightarrow> string" where
  "join sep [] = []"
| "join sep [x] = x"
| "join sep (x # y # ys) = x @ sep @ join sep (y # ys)"

text \<open>\<^verbatim>\<open>Array.from(new Set(xs))\<close>: a \<^verbatim>\<open>Set\<close> keeps its members in insertion order, so
  the first occurrence of each value survives. (\<^const>\<open>remdups\<close> keeps the last.)\<close>

fun uniq_from :: "'a list \<Rightarrow> 'a list \<Rightarrow> 'a list" where
  "uniq_from seen [] = []"
| "uniq_from seen (x # xs) =
     (if x \<in> set seen then uniq_from seen xs else x # uniq_from (x # seen) xs)"

definition uniq :: "'a list \<Rightarrow> 'a list" where
  "uniq xs = uniq_from [] xs"

text \<open>\<^verbatim>\<open>s.split(/[...]/g)\<close> for a class \<open>p\<close> of single separator characters.\<close>

fun split_on :: "(char \<Rightarrow> bool) \<Rightarrow> string \<Rightarrow> string list" where
  "split_on p [] = [[]]"
| "split_on p (c # cs) =
     (if p c then [] # split_on p cs
      else (case split_on p cs of [] \<Rightarrow> [[c]] | x # xs \<Rightarrow> (c # x) # xs))"

lemma length_dropWhile_less [termination_simp]:
  "length (dropWhile p xs) < Suc (length xs)"
  by (simp add: length_dropWhile_le less_Suc_eq_le)

text \<open>\<^verbatim>\<open>s.split(/\s{2,}/g)\<close>: the separators are the maximal runs of two or more
  white-space characters; a single white-space character separates nothing.\<close>

fun split_ws2 :: "string \<Rightarrow> string list" where
  "split_ws2 [] = [[]]"
| "split_ws2 (c # cs) =
     (if is_space c \<and> (case cs of [] \<Rightarrow> False | d # _ \<Rightarrow> is_space d)
      then [] # split_ws2 (dropWhile is_space cs)
      else (case split_ws2 cs of [] \<Rightarrow> [[c]] | x # xs \<Rightarrow> (c # x) # xs))"

text \<open>\<^verbatim>\<open>s.replace(/\s+/g, ' ')\<close>: every maximal run of white space becomes one space.\<close>

fun collapse_ws :: "string \<Rightarrow> string" where
  "collapse_ws [] = []"
| "collapse_ws (c # cs) =
     (if is_space c then CHR '' '' # collapse_ws (dropWhile is_space cs)
      else c # collapse_ws cs)"

text \<open>\<^verbatim>\<open>Array.from(input.matchAll(/\(([^()]+)\)/g))\<close>, each match given by its group 1:
  at an opening parenthesis the longest run of characters that are no parentheses is
  read; the match succeeds when the run is not empty and a closing parenthesis follows,
  and the scan goes on behind it. Otherwise the scan goes on at the next character.\<close>

definition not_paren :: "char \<Rightarrow> bool" where
  "not_paren c = (c \<noteq> CHR ''('' \<and> c \<noteq> CHR '')'')"

lemma length_tl_dropWhile_less [termination_simp]:
  "length (dropWhile p xs) - Suc 0 < Suc (length xs)"
  using length_dropWhile_le [of p xs] by simp

fun paren_groups :: "string \<Rightarrow> string list" where
  "paren_groups [] = []"
| "paren_groups (c # cs) =
     (if c = CHR ''(''
      then (let run = takeWhile not_paren cs; rest = dropWhile not_paren cs
            in if run \<noteq> [] \<and> (case rest of [] \<Rightarrow> False | d # _ \<Rightarrow> d = CHR '')'')
               then run # paren_groups (tl rest)
               else paren_groups cs)
      else paren_groups cs)"

section \<open>The region vocabulary\<close>

definition REGION_SYNONYMS :: "(string \<times> string) list" where
  "REGION_SYNONYMS =
    [(''world'', ''World''),
     (''worldwide'', ''World''),
     (''usa'', ''USA''),
     (''u.s.a.'', ''USA''),
     (''us'', ''USA''),
     (''u.s.'', ''USA''),
     (''north america'', ''USA''),
     (''europe'', ''Europe''),
     (''eur'', ''Europe''),
     (''pal'', ''Europe''),
     (''japan'', ''Japan''),
     (''jpn'', ''Japan''),
     (''asia'', ''Asia''),
     (''asia pacific'', ''Asia''),
     (''asia-pacific'', ''Asia''),
     (''australia'', ''Australia''),
     (''australasia'', ''Australia''),
     (''brazil'', ''Brazil''),
     (''canada'', ''Canada''),
     (''china'', ''China''),
     (''denmark'', ''Denmark''),
     (''finland'', ''Finland''),
     (''france'', ''France''),
     (''germany'', ''Germany''),
     (''hong kong'', ''Hong Kong''),
     (''italy'', ''Italy''),
     (''korea'', ''Korea''),
     (''south korea'', ''Korea''),
     (''republic of korea'', ''Korea''),
     (''mexico'', ''Mexico''),
     (''netherlands'', ''Netherlands''),
     (''new zealand'', ''New Zealand''),
     (''norway'', ''Norway''),
     (''russia'', ''Russia''),
     (''spain'', ''Spain''),
     (''sweden'', ''Sweden''),
     (''switzerland'', ''Switzerland''),
     (''taiwan'', ''Taiwan''),
     (''uk'', ''United Kingdom''),
     (''united kingdom'', ''United Kingdom''),
     (''england'', ''United Kingdom''),
     (''ireland'', ''Ireland''),
     (''poland'', ''Poland''),
     (''portugal'', ''Portugal''),
     (''belgium'', ''Belgium''),
     (''greece'', ''Greece''),
     (''czech republic'', ''Czech Republic''),
     (''south africa'', ''South Africa''),
     (''latin america'', ''Latin America''),
     (''middle east'', ''Middle East''),
     (''africa'', ''Africa''),
     (''asia minor'', ''Asia''),
     (''united states'', ''USA'')]"

definition DEFAULT_REGION :: string where
  "DEFAULT_REGION = ''Unknown''"

text \<open>\<^verbatim>\<open>set.add(x)\<close> on a \<^verbatim>\<open>Set\<close> held as the list of its members in insertion order.\<close>

definition set_add :: "'a list \<Rightarrow> 'a \<Rightarrow> 'a list" where
  "set_add xs x = (if x \<in> set xs then xs else xs @ [x])"

definition CANONICAL_REGIONS :: "string list" where
  "CANONICAL_REGIONS = set_add (uniq (map snd REGION_SYNONYMS)) DEFAULT_REGION"

section \<open>Region extraction\<close>

definition tokenizeRegionSegment :: "string \<Rightarrow> string list" where
  "tokenizeRegionSegment segment =
     filter (\<lambda>part. part \<noteq> [])
       (map trim
         (concat (map split_ws2
           (map trim (split_on (\<lambda>c. c \<in> set ''/,&'') segment)))))"

text \<open>The argument is a string; the \<^verbatim>\<open>undefined\<close> the signature also allows takes the
  same first branch as the empty string and is \<open>None\<close> at the callers.\<close>

definition normalizeRegionToken :: "string \<Rightarrow> string option" where
  "normalizeRegionToken token =
     (if token = [] then None
      else
        (let cleaned = trim (collapse_ws (filter (\<lambda>c. c \<noteq> CHR ''.'') token))
         in if cleaned = [] then None
            else
              (let lower = toLowerCase cleaned
               in case map_of REGION_SYNONYMS lower of
                    Some synonym \<Rightarrow> Some synonym
                  | None \<Rightarrow> if cleaned \<in> set CANONICAL_REGIONS then Some cleaned else None)))"

text \<open>The canonical labels that the tokens of one parenthesized group yield: the
  \<^verbatim>\<open>normalizedTokens\<close> of the loop below. A group with no token yields none.\<close>

definition recognizedLabels :: "string \<Rightarrow> string list" where
  "recognizedLabels inside = List.map_filter normalizeRegionToken (tokenizeRegionSegment inside)"

text \<open>The loop of \<^verbatim>\<open>extractRegions\<close> over the parenthesized groups, in order.\<close>

fun extractRegions_loop :: "string list \<Rightarrow> string list option" where
  "extractRegions_loop [] = None"
| "extractRegions_loop (inside # matches) =
     (let tokens = tokenizeRegionSegment inside
      in if tokens = [] then extractRegions_loop matches
         else
           (let normalizedTokens = List.map_filter normalizeRegionToken tokens
            in if normalizedTokens \<noteq> [] then Some (uniq normalizedTokens)
               else extractRegions_loop matches))"

definition extractRegions :: "string option \<Rightarrow> string list option" where
  "extractRegions input =
     (case input of
        None \<Rightarrow> None
      | Some s \<Rightarrow> if s = [] then None else extractRegions_loop (paren_groups s))"

section \<open>The parsed markup tree\<close>

text \<open>
  \<^verbatim>\<open>xmlParser.parse\<close> is the library's. The embedding starts from its result, the tree
  of plain values it builds: with \<^verbatim>\<open>parseTagValue: false\<close> and
  \<^verbatim>\<open>parseAttributeValue: false\<close> a leaf is a string, or \<^verbatim>\<open>true\<close> for an attribute
  without a value (\<^verbatim>\<open>allowBooleanAttributes\<close>); a repeated element is an array; an
  element with attributes or children is an object, held as the list of its properties
  in the order \<^verbatim>\<open>Object.entries\<close> gives them. A property that is absent reads as
  \<^verbatim>\<open>undefined\<close>, which is \<open>None\<close> here.
\<close>

datatype raw = RStr string | RBool bool | RArr "raw list" | RObj "(string \<times> raw) list"

text \<open>\<^verbatim>\<open>value.key\<close> for the property names the program reads (\<^verbatim>\<open>datafile\<close>,
  \<^verbatim>\<open>header\<close>, \<^verbatim>\<open>game\<close>, \<^verbatim>\<open>@_name\<close>, \<^verbatim>\<open>name\<close>, \<^verbatim>\<open>description\<close>, \<^verbatim>\<open>category\<close>,
  \<^verbatim>\<open>rom\<close>): none of them is a property of a string, a boolean or an array.\<close>

fun get_prop :: "raw \<Rightarrow> string \<Rightarrow> raw option" where
  "get_prop (RObj kvs) key = map_of kvs key"
| "get_prop v key = None"

text \<open>\<^verbatim>\<open>Object.entries(value)\<close>: a string has its characters and an array its elements
  under their indices.\<close>

fun entries :: "raw \<Rightarrow> (string \<times> raw) list" where
  "entries (RObj kvs) = kvs"
| "entries (RStr s) = map (\<lambda>(i, c). (decimal i, RStr [c])) (enumerate 0 s)"
| "entries (RArr vs) = map (\<lambda>(i, v). (decimal i, v)) (enumerate 0 vs)"
| "entries (RBool b) = []"

text \<open>What \<^verbatim>\<open>!value\<close> negates.\<close>

fun truthy :: "raw option \<Rightarrow> bool" where
  "truthy None = False"
| "truthy (Some (RStr s)) = (s \<noteq> [])"
| "truthy (Some (RBool b)) = b"
| "truthy (Some (RArr vs)) = True"
| "truthy (Some (RObj kvs)) = True"

text \<open>\<^verbatim>\<open>object[key] = value\<close> on an object held as its property list.\<close>

fun obj_set :: "(string \<times> 'v) list \<Rightarrow> string \<Rightarrow> 'v \<Rightarrow> (string \<times> 'v) list" where
  "obj_set [] key v = [(key, v)]"
| "obj_set ((k, w) # kvs) key v =
     (if k = key then (k, v) # kvs else (k, w) # obj_set kvs key v)"

text \<open>\<^verbatim>\<open>coerceText\<close>. Its branch for numbers is not taken on such a tree, which holds
  none; the argument \<open>None\<close> is \<^verbatim>\<open>undefined\<close>.\<close>

lemma size_map_of_less:
  "map_of kvs key = Some v \<Longrightarrow> size (v::raw) < Suc (size_list (size_prod (\<lambda>_. 0) size) kvs)"
  by (induction kvs) (auto split: if_splits)

function coerceText :: "raw option \<Rightarrow> string" where
  "coerceText None = []"
| "coerceText (Some (RStr s)) = s"
| "coerceText (Some (RBool b)) = (if b then ''true'' else ''false'')"
| "coerceText (Some (RArr [])) = []"
| "coerceText (Some (RArr (v # vs))) = coerceText (Some v)"
| "coerceText (Some (RObj kvs)) =
     (case map_of kvs ''#text'' of None \<Rightarrow> [] | Some v \<Rightarrow> coerceText (Some v))"
  by pat_completeness auto
termination
  by (relation "measure (\<lambda>v. case v of None \<Rightarrow> 0 | Some r \<Rightarrow> size r)")
     (auto dest: size_map_of_less)

fun toArray :: "raw option \<Rightarrow> raw list" where
  "toArray (Some (RArr vs)) = vs"
| "toArray None = []"
| "toArray (Some v) = [v]"

section \<open>The data model\<close>

text \<open>
  The interfaces of the source, as records. Two interfaces of the source may name a
  field alike; the fields of \<^verbatim>\<open>DatHeader\<close> carry the prefix \<open>h_\<close> here, those of
  \<^verbatim>\<open>DatGame\<close> \<open>g_\<close>, of \<^verbatim>\<open>FilterSummary\<close> \<open>s_\<close>, of \<^verbatim>\<open>FilteredDatResult\<close> \<open>r_\<close> and of
  \<^verbatim>\<open>FilterPreviewResponse\<close> \<open>pr_\<close>; \<^verbatim>\<open>ParsedDat\<close> keeps the plain names. An optional
  field is an \<open>option\<close>.
\<close>

record DatHeader =
  h_name :: string
  h_description :: "string option"
  h_version :: "string option"
  h_date :: "string option"
  h_author :: "string option"
  h_homepage :: "string option"
  h_url :: "string option"
  h_extra :: "(string \<times> string) list"

record DatRom =
  attributes :: "(string \<times> string) list"

record DatGame =
  g_name :: string
  g_description :: string
  g_category :: string
  g_roms :: "DatRom list"
  g_regions :: "string list"
  g_raw :: raw

record ParsedDat =
  header :: DatHeader
  games :: "DatGame list"
  availableRegions :: "string list"
  descriptor :: string
  normalizedDescriptor :: string
  versionLabel :: "string option"
  rawRootExtras :: "(string \<times> raw) list"

record FilterSummary =
  s_initialGames :: nat
  s_filteredGames :: nat
  s_removedGames :: int
  s_selectedRegions :: "string list"
  s_regionLabel :: string
  s_descriptor :: string
  s_normalizedDescriptor :: string
  s_versionLabel :: "string option"

text \<open>The result of the filter. Its two remaining fields of the source, the serialized
  text \<^verbatim>\<open>xml\<close> (built by the library's \<^verbatim>\<open>XMLBuilder\<close>) and the suggested \<^verbatim>\<open>filename\<close>,
  are computed after the check for an empty result from the values below and feed into
  none of them; they are left out.\<close>

record FilteredDatResult =
  r_header :: DatHeader
  r_games :: "DatGame list"
  r_summary :: FilterSummary

text \<open>The three \<^verbatim>\<open>throw new Error(...)\<close> of the parser and the filter.\<close>

datatype error = MissingDatafileRoot | MissingHeaderName | NoGamesMatch

fun error_message :: "error \<Rightarrow> string" where
  "error_message MissingDatafileRoot = ''Invalid DAT: missing <datafile> root node.''"
| "error_message MissingHeaderName = ''Invalid DAT header: missing <name>.''"
| "error_message NoGamesMatch = ''No games match the selected region filters.''"

text \<open>The kinds of failure the specification names.\<close>

definition InvalidFormat :: "error \<Rightarrow> bool" where
  "InvalidFormat e = (e = MissingDatafileRoot \<or> e = MissingHeaderName)"

definition NoMatches :: "error \<Rightarrow> bool" where
  "NoMatches e = (e = NoGamesMatch)"

section \<open>The parser\<close>

definition emptyHeader :: DatHeader where
  "emptyHeader =
     \<lparr>h_name = [], h_description = None, h_version = None, h_date = None,
      h_author = None, h_homepage = None, h_url = None, h_extra = []\<rparr>"

text \<open>One round of the loop of \<^verbatim>\<open>normalizeHeader\<close> over the header's properties.\<close>

definition header_step :: "DatHeader \<Rightarrow> string \<times> raw \<Rightarrow> DatHeader" where
  "header_step hdr kv =
     (let key = fst kv; textValue = coerceText (Some (snd kv))
      in if key = ''name'' then hdr\<lparr>h_name := textValue\<rparr>
         else if key = ''description'' then hdr\<lparr>h_description := Some textValue\<rparr>
         else if key = ''version'' then hdr\<lparr>h_version := Some textValue\<rparr>
         else if key = ''date'' then hdr\<lparr>h_date := Some textValue\<rparr>
         else if key = ''author'' then hdr\<lparr>h_author := Some textValue\<rparr>
         else if key = ''homepage'' then hdr\<lparr>h_homepage := Some textValue\<rparr>
         else if key = ''url'' then hdr\<lparr>h_url := Some textValue\<rparr>
         else hdr\<lparr>h_extra := obj_set (h_extra hdr) key textValue\<rparr>)"

definition normalizeHeader :: "raw \<Rightarrow> error + DatHeader" where
  "normalizeHeader rawHeader =
     (let hdr = foldl header_step emptyHeader (entries rawHeader)
      in if h_name hdr = [] then Inl MissingHeaderName else Inr hdr)"

definition mapRomAttributes :: "raw \<Rightarrow> (string \<times> string) list" where
  "mapRomAttributes rawRom =
     (if \<not> truthy (Some rawRom) then []
      else foldl (\<lambda>attrs (key, v).
                    if take 2 key = ''@_'' then obj_set attrs (drop 2 key) (coerceText (Some v))
                    else attrs)
             [] (entries rawRom))"

text \<open>One round of the loop of \<^verbatim>\<open>mapRomAttributes\<close> over the properties of a
  sub-record.\<close>

definition attr_step :: "(string \<times> string) list \<Rightarrow> string \<times> raw \<Rightarrow> (string \<times> string) list" where
  "attr_step = (\<lambda>attrs (key, v).
      if take 2 key = ''@_'' then obj_set attrs (drop 2 key) (coerceText (Some v)) else attrs)"

definition normalizeGame :: "raw \<Rightarrow> DatGame" where
  "normalizeGame rawGame =
     (let name = (case get_prop rawGame ''@_name'' of
                    Some (RStr s) \<Rightarrow> s
                  | _ \<Rightarrow> coerceText (get_prop rawGame ''name''));
          description = coerceText (get_prop rawGame ''description'');
          category = coerceText (get_prop rawGame ''category'');
          romEntries = map (\<lambda>rom. \<lparr>attributes = mapRomAttributes rom\<rparr>)
                         (toArray (get_prop rawGame ''rom''));
          regions =
            (case extractRegions (Some name) of
               Some r \<Rightarrow> r
             | None \<Rightarrow>
                (case extractRegions (Some description) of
                   Some r \<Rightarrow> r
                 | None \<Rightarrow>
                    (case (case romEntries of
                             [] \<Rightarrow> None
                           | rom # _ \<Rightarrow> extractRegions (map_of (attributes rom) ''name'')) of
                       Some r \<Rightarrow> r
                     | None \<Rightarrow> [])))
      in \<lparr>g_name = name, g_description = description, g_category = category,
          g_roms = romEntries, g_regions = (if regions \<noteq> [] then regions else []),
          g_raw = rawGame\<rparr>)"

section \<open>The two descriptor patterns\<close>

text \<open>
  The regular expressions of \<^verbatim>\<open>tryExtractDescriptor\<close> and \<^verbatim>\<open>extractGenericDescriptor\<close>
  are sequences of literal characters and of quantified character classes around one
  capture group. A pattern is the list of its items: \<open>Lit c\<close> is the character \<open>c\<close>;
  \<open>Rep p n greedy\<close> is the class \<open>p\<close> repeated \<open>n\<close> times or more, greedy
  (\<^verbatim>\<open>*\<close>, \<^verbatim>\<open>+\<close>) or lazy (\<^verbatim>\<open>+?\<close>); \<open>Mark\<close> is a parenthesis of the capture group.

  \<open>rx\<close> is the backtracking matcher at one start position: a greedy item tries the
  longest repetition first, a lazy one the shortest, and the first choice under which the
  rest of the pattern matches is taken. The result lists the part of the input still
  unread at each \<open>Mark\<close> and at the end of the match.
\<close>

datatype tok = Lit char | Rep "char \<Rightarrow> bool" nat bool | Mark

fun first_some :: "'a option list \<Rightarrow> 'a option" where
  "first_some [] = None"
| "first_some (x # xs) = (case x of Some y \<Rightarrow> Some y | None \<Rightarrow> first_some xs)"

fun rx :: "tok list \<Rightarrow> string \<Rightarrow> string list option" where
  "rx [] s = Some [s]"
| "rx (Lit c # ts) s =
     (case s of [] \<Rightarrow> None | x # xs \<Rightarrow> if x = c then rx ts xs else None)"
| "rx (Mark # ts) s = map_option ((#) s) (rx ts s)"
| "rx (Rep p n greedy # ts) s =
     (let longest = length (takeWhile p s);
          counts = (if greedy then rev [n..<Suc longest] else [n..<Suc longest])
      in first_some (map (\<lambda>k. rx ts (drop k s)) counts))"

text \<open>A pattern that is not anchored is tried at every start position from the left.\<close>

fun rx_search :: "tok list \<Rightarrow> string \<Rightarrow> string list option" where
  "rx_search ts [] = rx ts []"
| "rx_search ts (c # cs) =
     (case rx ts (c # cs) of Some r \<Rightarrow> Some r | None \<Rightarrow> rx_search ts cs)"

text \<open>\<^verbatim>\<open>match[1]\<close>: the input between the two marks.\<close>

fun group1 :: "string list \<Rightarrow> string" where
  "group1 (a # b # rest) = take (length a - length b) a"
| "group1 r = []"

text \<open>\<^verbatim>\<open>^${escapedSystem}\s*-\s*(.+?)\s*\(${countPattern}\)\<close>. \<^verbatim>\<open>escapeRegExp\<close> puts a
  backslash before every character that has a meaning in a pattern, so the system name
  and the count stand for themselves, character by character.\<close>

definition descriptor_pattern :: "string \<Rightarrow> nat \<Rightarrow> tok list" where
  "descriptor_pattern systemName totalGames =
     map Lit systemName
     @ [Rep is_space 0 True, Lit CHR ''-'', Rep is_space 0 True,
        Mark, Rep is_dot 1 False, Mark,
        Rep is_space 0 True, Lit CHR ''('']
     @ map Lit (decimal totalGames)
     @ [Lit CHR '')'']"

definition tryExtractDescriptor :: "string \<Rightarrow> string \<Rightarrow> nat \<Rightarrow> string option" where
  "tryExtractDescriptor description systemName totalGames =
     (if description = [] then None
      else
        (case rx (descriptor_pattern systemName totalGames) description of
           Some m \<Rightarrow> if group1 m \<noteq> [] then Some (trim (group1 m)) else None
         | None \<Rightarrow> None))"

text \<open>\<^verbatim>\<open>/-\s*([^-()]+)\s*\(\d+\)/\<close>.\<close>

definition generic_pattern :: "tok list" where
  "generic_pattern =
     [Lit CHR ''-'', Rep is_space 0 True,
      Mark, Rep (\<lambda>c. c \<notin> set ''-()'') 1 True, Mark,
      Rep is_space 0 True, Lit CHR ''('', Rep is_digit 1 True, Lit CHR '')'']"

definition extractGenericDescriptor :: "string \<Rightarrow> string option" where
  "extractGenericDescriptor description =
     (let fallbackMatch = rx_search generic_pattern description;
          captured = (case fallbackMatch of Some m \<Rightarrow> group1 m | None \<Rightarrow> [])
      in if captured \<noteq> [] then Some (trim captured)
         else if test_ci ''datfile'' description then Some ''Datfile''
         else None)"

definition normalizeDescriptorLabel :: "string \<Rightarrow> string" where
  "normalizeDescriptorLabel label =
     (if test_ci ''datfile'' label then ''Datfile''
      else if test_ci ''disc'' label then ''Datfile''
      else label)"

text \<open>The result is the pair \<open>(originalDescriptor, normalizedDescriptor)\<close>.\<close>

definition deriveDescriptors :: "DatHeader \<Rightarrow> nat \<Rightarrow> string \<times> string" where
  "deriveDescriptors hdr totalGames =
     (let description = (case h_description hdr of Some d \<Rightarrow> d | None \<Rightarrow> []);
          candidate = tryExtractDescriptor description (h_name hdr) totalGames;
          generic = (case candidate of
                       Some c \<Rightarrow> Some c
                     | None \<Rightarrow> extractGenericDescriptor description);
          normalized = normalizeDescriptorLabel
                         (case generic of Some g \<Rightarrow> g | None \<Rightarrow> ''Datfile'');
          originalDescriptor = (case generic of Some g \<Rightarrow> g | None \<Rightarrow> normalized)
      in (originalDescriptor, normalized))"

section \<open>Parsing a document\<close>

text \<open>
  \<^verbatim>\<open>xs.sort((a, b) => a.localeCompare(b))\<close>. The sort of the language is stable, so for
  a comparator that is an order the result is the one an insertion sort gives. The
  comparator \<^verbatim>\<open>localeCompare\<close> belongs to the host and its locale; it is a parameter of
  \<open>parseDat\<close>.
\<close>

fun insort_cmp :: "('a \<Rightarrow> 'a \<Rightarrow> int) \<Rightarrow> 'a \<Rightarrow> 'a list \<Rightarrow> 'a list" where
  "insort_cmp cmp x [] = [x]"
| "insort_cmp cmp x (y # ys) =
     (if cmp x y \<le> 0 then x # y # ys else y # insort_cmp cmp x ys)"

definition sort_cmp :: "('a \<Rightarrow> 'a \<Rightarrow> int) \<Rightarrow> 'a list \<Rightarrow> 'a list" where
  "sort_cmp cmp xs = foldr (insort_cmp cmp) xs []"

text \<open>What makes a comparator an order the sort can follow: any two strings compare one
  way or the other, and the comparison is transitive.\<close>

definition is_collation :: "(string \<Rightarrow> string \<Rightarrow> int) \<Rightarrow> bool" where
  "is_collation cmp =
     ((\<forall>a b. cmp a b \<le> 0 \<or> cmp b a \<le> 0)
      \<and> (\<forall>a b c. cmp a b \<le> 0 \<and> cmp b c \<le> 0 \<longrightarrow> cmp a c \<le> 0))"

text \<open>One round of the loop that collects \<^verbatim>\<open>availableRegionSet\<close>.\<close>

definition region_step :: "string list \<Rightarrow> DatGame \<Rightarrow> string list" where
  "region_step acc game =
     (if length (g_regions game) = 0 then set_add acc DEFAULT_REGION
      else foldl set_add acc (g_regions game))"

text \<open>What one entry adds to the vocabulary.\<close>

definition regionsOrUnknown :: "DatGame \<Rightarrow> string set" where
  "regionsOrUnknown g = (if g_regions g = [] then {''Unknown''} else set (g_regions g))"

definition parseDat :: "(string \<Rightarrow> string \<Rightarrow> int) \<Rightarrow> raw \<Rightarrow> error + ParsedDat" where
  "parseDat localeCompare parsed =
     (if \<not> truthy (get_prop parsed ''datafile'') then Inl MissingDatafileRoot
      else
        (case get_prop parsed ''datafile'' of
           None \<Rightarrow> Inl MissingDatafileRoot
         | Some datafile \<Rightarrow>
            (let rawHeader = (case get_prop datafile ''header'' of
                                Some h \<Rightarrow> h | None \<Rightarrow> RObj []);
                 rawGame = (case get_prop datafile ''game'' of
                              Some g \<Rightarrow> g | None \<Rightarrow> RArr []);
                 rootExtras = filter (\<lambda>kv. fst kv \<noteq> ''header'' \<and> fst kv \<noteq> ''game'')
                                (entries datafile)
             in case normalizeHeader rawHeader of
                  Inl e \<Rightarrow> Inl e
                | Inr hdr \<Rightarrow>
                   (let vLabel = (case h_version hdr of
                                    Some v \<Rightarrow> Some v | None \<Rightarrow> h_date hdr);
                        gamesArray = map normalizeGame (toArray (Some rawGame));
                        availableRegionSet = foldl region_step [] gamesArray;
                        descriptors = deriveDescriptors hdr (length gamesArray)
                    in Inr \<lparr>header = hdr,
                            games = gamesArray,
                            availableRegions = sort_cmp localeCompare availableRegionSet,
                            descriptor = fst descriptors,
                            normalizedDescriptor = snd descriptors,
                            versionLabel = vLabel,
                            rawRootExtras = rootExtras\<rparr>))))"

text \<open>The header element of a parsed tree as \<open>parseDat\<close> reads it (an empty object when
  there is none), and its \<^verbatim>\<open>name\<close> field.\<close>

definition rawHeaderOf :: "raw \<Rightarrow> raw" where
  "rawHeaderOf tree =
     (case get_prop tree ''datafile'' of
        None \<Rightarrow> RObj []
      | Some datafile \<Rightarrow>
         (case get_prop datafile ''header'' of Some h \<Rightarrow> h | None \<Rightarrow> RObj []))"

definition headerNameField :: "raw \<Rightarrow> raw option" where
  "headerNameField tree = map_of (entries (rawHeaderOf tree)) ''name''"

section \<open>The filter\<close>

definition createRegionLabel :: "string list \<Rightarrow> string" where
  "createRegionLabel selectedRegions =
     (if length selectedRegions = 0 then [] else join '', '' selectedRegions)"

text \<open>\<^verbatim>\<open>new Date().toISOString()\<close> reads the clock; its result is the parameter
  \<open>nowIso\<close>, and \<^verbatim>\<open>.split('T')[0]\<close> keeps what stands before the first \<^verbatim>\<open>T\<close>.\<close>

definition isoDate :: "string \<Rightarrow> string" where
  "isoDate nowIso = (case split_on (\<lambda>c. c = CHR ''T'') nowIso of [] \<Rightarrow> [] | d # _ \<Rightarrow> d)"

definition buildFilteredHeader ::
  "string \<Rightarrow> DatHeader \<Rightarrow> nat \<Rightarrow> string list \<Rightarrow> string \<Rightarrow> string option \<Rightarrow> DatHeader" where
  "buildFilteredHeader nowIso hdr filteredCount selectedRegions descriptorOriginal vLabel =
     (let regionLabel = createRegionLabel selectedRegions;
          systemName = h_name hdr;
          version = (case vLabel of
                       Some v \<Rightarrow> v
                     | None \<Rightarrow>
                        (case h_version hdr of
                           Some v \<Rightarrow> v
                         | None \<Rightarrow>
                            (case h_date hdr of
                               Some d \<Rightarrow> d
                             | None \<Rightarrow> isoDate nowIso)));
          decoratedSystem = (if regionLabel \<noteq> [] then systemName @ '' ('' @ regionLabel @ '')''
                             else systemName);
          description = decoratedSystem @ '' - '' @ descriptorOriginal
                        @ '' ('' @ decimal filteredCount @ '') ('' @ version @ '')''
      in hdr\<lparr>h_name := decoratedSystem, h_description := Some description\<rparr>)"

text \<open>The first statement of \<^verbatim>\<open>filterDatByRegions\<close>.\<close>

definition canonicalSelections :: "string list \<Rightarrow> string list" where
  "canonicalSelections selectedRegions =
     uniq (filter (\<lambda>v. v \<noteq> [])
            (map (\<lambda>v. case normalizeRegionToken v of Some c \<Rightarrow> c | None \<Rightarrow> v)
               selectedRegions))"

text \<open>The entries the filter keeps (the local \<^verbatim>\<open>games\<close>), before the check that there
  are any. The third argument of \<^verbatim>\<open>filterDatByRegions\<close>, the base file name, only feeds
  the suggested file name and is left out with it.\<close>

definition keptGames :: "ParsedDat \<Rightarrow> string list \<Rightarrow> DatGame list" where
  "keptGames parsed selectedRegions =
     (let normalizedSelection = canonicalSelections selectedRegions;
          selectionActive = (length normalizedSelection > 0)
      in if selectionActive
         then filter (\<lambda>game. list_ex (\<lambda>region. region \<in> set normalizedSelection)
                               (g_regions game))
                (games parsed)
         else games parsed)"

definition filterDatByRegions ::
  "string \<Rightarrow> ParsedDat \<Rightarrow> string list \<Rightarrow> error + FilteredDatResult" where
  "filterDatByRegions nowIso parsed selectedRegions =
     (let selections = canonicalSelections selectedRegions;
          kept = keptGames parsed selectedRegions
      in if length kept = 0 then Inl NoGamesMatch
         else
           (let descriptorOriginal = (if descriptor parsed \<noteq> [] then descriptor parsed
                                      else ''Datfile'');
                descriptorNormalized =
                  (if normalizedDescriptor parsed \<noteq> [] then normalizedDescriptor parsed
                   else normalizeDescriptorLabel descriptorOriginal);
                hdr = buildFilteredHeader nowIso (header parsed) (length kept) selections
                        descriptorOriginal (versionLabel parsed);
                summary =
                  \<lparr>s_initialGames = length (games parsed),
                   s_filteredGames = length kept,
                   s_removedGames = int (length (games parsed)) - int (length kept),
                   s_selectedRegions = selections,
                   s_regionLabel = createRegionLabel selections,
                   s_descriptor = descriptorOriginal,
                   s_normalizedDescriptor = descriptorNormalized,
                   s_versionLabel = versionLabel parsed\<rparr>
            in Inr \<lparr>r_header = hdr, r_games = kept, r_summary = summary\<rparr>))"

section \<open>The document held by the main process\<close>

text \<open>
  The main process holds the loaded document in the variable \<^verbatim>\<open>loadedDat\<close>. A handler
  takes its value and returns the response together with the value it leaves behind.
  The response of a preview carries the header and the summary of the result (and, in the
  source, its file name, left out with the field of the result).
\<close>

record LoadedDatState =
  sourcePath :: string
  originalFilename :: string
  parsed :: ParsedDat

record FilterPreviewResponse =
  pr_success :: bool
  pr_error :: "string option"
  pr_header :: "DatHeader option"
  pr_summary :: "FilterSummary option"

definition runFilter :: "string \<Rightarrow> LoadedDatState \<Rightarrow> string list \<Rightarrow> error + FilteredDatResult" where
  "runFilter nowIso state regions = filterDatByRegions nowIso (parsed state) regions"

definition handlePreviewFilter ::
  "string \<Rightarrow> LoadedDatState option \<Rightarrow> string list
     \<Rightarrow> FilterPreviewResponse \<times> LoadedDatState option" where
  "handlePreviewFilter nowIso loadedDat regions =
     (case loadedDat of
        None \<Rightarrow>
          (\<lparr>pr_success = False, pr_error = Some ''No DAT file loaded.'',
            pr_header = None, pr_summary = None\<rparr>, loadedDat)
      | Some state \<Rightarrow>
          (case runFilter nowIso state regions of
             Inr result \<Rightarrow>
               (\<lparr>pr_success = True, pr_error = None,
                 pr_header = Some (r_header result),
                 pr_summary = Some (r_summary result)\<rparr>, loadedDat)
           | Inl e \<Rightarrow>
               (\<lparr>pr_success = False, pr_error = Some (error_message e),
                 pr_header = None, pr_summary = None\<rparr>, loadedDat)))"

section \<open>The sources of an entry's regions\<close>

text \<open>
  What the specification reads an entry's regions from, taken from the parsed tree of the
  entry itself: its name (the attribute \<^verbatim>\<open>name\<close> when it is a string, else the text of the
  child \<^verbatim>\<open>name\<close>), the text of its child \<^verbatim>\<open>description\<close>, and the text of the attribute
  \<^verbatim>\<open>name\<close> of its first \<^verbatim>\<open>rom\<close> child. \<open>regionsBySources\<close> tries them in this order and
  takes the first that yields a result, none being merged with another.
\<close>

definition entryName :: "raw \<Rightarrow> string" where
  "entryName rawGame =
     (case get_prop rawGame ''@_name'' of
        Some (RStr s) \<Rightarrow> s
      | _ \<Rightarrow> coerceText (get_prop rawGame ''name''))"

definition romNameAttribute :: "raw \<Rightarrow> string option" where
  "romNameAttribute rawRom =
     (if truthy (Some rawRom)
      then map_option (\<lambda>v. coerceText (Some v)) (map_of (entries rawRom) ''@_name'')
      else None)"

definition regionsBySources :: "raw \<Rightarrow> string list" where
  "regionsBySources rawGame =
     (case extractRegions (Some (entryName rawGame)) of
        Some r \<Rightarrow> r
      | None \<Rightarrow>
         (case extractRegions (Some (coerceText (get_prop rawGame ''description''))) of
            Some r \<Rightarrow> r
          | None \<Rightarrow>
             (case toArray (get_prop rawGame ''rom'') of
                [] \<Rightarrow> []
              | rawRom # _ \<Rightarrow>
                 (case extractRegions (romNameAttribute rawRom) of
                    Some r \<Rightarrow> r
                  | None \<Rightarrow> []))))"

text \<open>An object of the source language has each of its keys once.\<close>

definition firstRomKeysDistinct :: "raw \<Rightarrow> bool" where
  "firstRomKeysDistinct rawGame =
     (case toArray (get_prop rawGame ''rom'') of
        [] \<Rightarrow> True
      | rawRom # _ \<Rightarrow> distinct (map fst (entries rawRom)))"

section \<open>Sample inputs\<close>

text \<open>A collation to run the parser with: the comparison of two strings code unit by
  code unit.\<close>

fun codeUnitCompare :: "string \<Rightarrow> string \<Rightarrow> int" where
  "codeUnitCompare [] [] = 0"
| "codeUnitCompare [] (y # ys) = - 1"
| "codeUnitCompare (x # xs) [] = 1"
| "codeUnitCompare (x # xs) (y # ys) =
     (if (of_char x :: nat) < of_char y then - 1
      else if (of_char y :: nat) < of_char x then 1
      else codeUnitCompare xs ys)"

text \<open>A document of three entries: one with no region, one with two, and one tagged
  \<^verbatim>\<open>(Unknown)\<close>; the tree the parser builds for it and the document parsed from it.\<close>

definition raw_alpha :: raw where
  "raw_alpha =
     RObj [(''@_name'', RStr ''Alpha (Demo)''),
           (''description'', RStr ''Alpha (Demo)''),
           (''rom'', RObj [(''@_name'', RStr ''Alpha (Demo).bin''), (''@_size'', RStr ''1024'')])]"

definition raw_bravo :: raw where
  "raw_bravo =
     RObj [(''@_name'', RStr ''Bravo (USA, Europe) (En,Fr)''),
           (''description'', RStr ''Bravo (USA, Europe) (En,Fr)'')]"

definition raw_charlie :: raw where
  "raw_charlie = RObj [(''@_name'', RStr ''Charlie (Unknown)'')]"

text \<open>Three entries whose sources disagree: one whose name, description and first
  sub-record each carry another region; one whose name carries none; and one, named by a
  child element, whose two sub-records alone carry regions.\<close>

definition raw_foxtrot :: raw where
  "raw_foxtrot =
     RObj [(''@_name'', RStr ''Foxtrot (USA)''),
           (''description'', RStr ''Foxtrot (Japan)''),
           (''rom'', RObj [(''@_name'', RStr ''Foxtrot (Europe).bin'')])]"

definition raw_delta :: raw where
  "raw_delta =
     RObj [(''@_name'', RStr ''Delta''),
           (''description'', RStr ''Delta (Japan)''),
           (''rom'', RObj [(''@_name'', RStr ''Delta (Europe).bin''), (''@_size'', RStr ''2048'')])]"

definition raw_echo :: raw where
  "raw_echo =
     RObj [(''name'', RStr ''Echo''),
           (''description'', RStr ''Echo''),
           (''rom'', RArr [RObj [(''@_size'', RStr ''512''), (''@_name'', RStr ''Echo (Korea).bin'')],
                           RObj [(''@_name'', RStr ''Echo (France).bin'')]])]"

definition sample_tree :: raw where
  "sample_tree =
     RObj [(''datafile'',
            RObj [(''header'',
                   RObj [(''name'', RStr ''Sega - Saturn''),
                         (''description'', RStr ''Sega - Saturn - Datfile (3) (2025-11-07)''),
                         (''version'', RStr ''2025-11-07'')]),
                  (''game'', RArr [raw_alpha, raw_bravo, raw_charlie])])]"

definition game_alpha :: DatGame where
  "game_alpha =
     \<lparr>g_name = ''Alpha (Demo)'', g_description = ''Alpha (Demo)'', g_category = [],
      g_roms = [\<lparr>attributes = [(''name'', ''Alpha (Demo).bin''), (''size'', ''1024'')]\<rparr>],
      g_regions = [], g_raw = raw_alpha\<rparr>"

definition game_bravo :: DatGame where
  "game_bravo =
     \<lparr>g_name = ''Bravo (USA, Europe) (En,Fr)'',
      g_description = ''Bravo (USA, Europe) (En,Fr)'', g_category = [],
      g_roms = [], g_regions = [''USA'', ''Europe''], g_raw = raw_bravo\<rparr>"

definition game_charlie :: DatGame where
  "game_charlie =
     \<lparr>g_name = ''Charlie (Unknown)'', g_description = [], g_category = [],
      g_roms = [], g_regions = [''Unknown''], g_raw = raw_charlie\<rparr>"

definition sample_parsed :: ParsedDat where
  "sample_parsed =
     \<lparr>header = \<lparr>h_name = ''Sega - Saturn'',
                 h_description = Some ''Sega - Saturn - Datfile (3) (2025-11-07)'',
                 h_version = Some ''2025-11-07'', h_date = None, h_author = None,
                 h_homepage = None, h_url = None, h_extra = []\<rparr>,
      games = [game_alpha, game_bravo, game_charlie],
      availableRegions = [''Europe'', ''USA'', ''Unknown''],
      descriptor = ''Datfile'',
      normalizedDescriptor = ''Datfile'',
      versionLabel = Some ''2025-11-07'',
      rawRootExtras = []\<rparr>"

definition sample_now :: string where
  "sample_now = ''2026-11-03T09:30:00.000Z''"

definition sample_state :: LoadedDatState where
  "sample_state =
     \<lparr>sourcePath = ''/dats/Sega - Saturn - Datfile (3) (2025-11-07).dat'',
      originalFilename = ''Sega - Saturn - Datfile (3) (2025-11-07).dat'',
      parsed = sample_parsed\<rparr>"

text \<open>A document whose two entries both carry a region, one of them the tag
  \<^verbatim>\<open>(Unknown)\<close>.\<close>

definition tagged_tree :: raw where
  "tagged_tree =
     RObj [(''datafile'',
            RObj [(''header'',
                   RObj [(''name'', RStr ''Sega - Saturn''),
                         (''description'', RStr ''Sega - Saturn - Datfile (2) (2025-11-07)''),
                         (''date'', RStr ''2025-11-07'')]),
                  (''game'', RArr [raw_bravo, raw_charlie])])]"

definition tagged_parsed :: ParsedDat where
  "tagged_parsed =
     \<lparr>header = \<lparr>h_name = ''Sega - Saturn'',
                 h_description = Some ''Sega - Saturn - Datfile (2) (2025-11-07)'',
                 h_version = None, h_date = Some ''2025-11-07'', h_author = None,
                 h_homepage = None, h_url = None, h_extra = []\<rparr>,
      games = [game_bravo, game_charlie],
      availableRegions = [''Europe'', ''USA'', ''Unknown''],
      descriptor = ''Datfile'',
      normalizedDescriptor = ''Datfile'',
      versionLabel = Some ''2025-11-07'',
      rawRootExtras = []\<rparr>"

text \<open>A selection of raw strings: a synonym, a string that is no region, the empty
  string, and repetitions.\<close>

definition loose_selection :: "string list" where
  "loose_selection = [''usa'', ''Narnia'', [], ''USA'', ''Narnia'']"

text \<open>Trees without a header name and without a root element; a document whose
  description has nothing but blanks where the descriptor stands; two headers whose
  descriptions match neither descriptor pattern.\<close>

definition nameless_tree :: raw where
  "nameless_tree =
     RObj [(''datafile'',
            RObj [(''header'', RObj [(''description'', RStr ''Sega - Saturn - Datfile (1)'')]),
                  (''game'', raw_bravo)])]"

definition rootless_tree :: raw where
  "rootless_tree = RObj [(''mame'', RObj [(''game'', raw_bravo)])]"

definition blank_tree :: raw where
  "blank_tree =
     RObj [(''datafile'',
            RObj [(''header'',
                   RObj [(''name'', RStr ''Sega - Saturn''),
                         (''description'', RStr ''Sega - Saturn -  (1)'')]),
                  (''game'', raw_bravo)])]"

definition blank_parsed :: ParsedDat where
  "blank_parsed =
     \<lparr>header = \<lparr>h_name = ''Sega - Saturn'',
                 h_description = Some ''Sega - Saturn -  (1)'',
                 h_version = None, h_date = None, h_author = None,
                 h_homepage = None, h_url = None, h_extra = []\<rparr>,
      games = [game_bravo],
      availableRegions = [''Europe'', ''USA''],
      descriptor = [],
      normalizedDescriptor = [],
      versionLabel = None,
      rawRootExtras = []\<rparr>"

definition mention_header :: DatHeader where
  "mention_header =
     emptyHeader\<lparr>h_name := ''Sega - Saturn'', h_description := Some ''Redump DATFILE collection''\<rparr>"

definition plain_header :: DatHeader where
  "plain_header =
     emptyHeader\<lparr>h_name := ''Sega - Saturn'', h_description := Some ''Catalog of games''\<rparr>"

section \<open>Auxiliary facts\<close>

text \<open>The sample document is what the parser returns for the sample tree.\<close>

lemma sample_parsed_is_parsed: "parseDat codeUnitCompare sample_tree = Inr sample_parsed"
  by code_simp

subsection \<open>Deduplication\<close>

lemma set_uniq_from: "set (uniq_from seen xs) = set xs - set seen"
  by (induction xs arbitrary: seen) auto

lemma distinct_uniq_from: "distinct (uniq_from seen xs)"
  by (induction xs arbitrary: seen) (auto simp: set_uniq_from)

lemma set_uniq: "set (uniq xs) = set xs"
  by (simp add: uniq_def set_uniq_from)

lemma distinct_uniq: "distinct (uniq xs)"
  by (simp add: uniq_def distinct_uniq_from)

lemma uniq_Nil_iff: "uniq xs = [] \<longleftrightarrow> xs = []"
  using set_uniq [of xs] by (metis set_empty)

lemma keptGames_inactive:
  "canonicalSelections sel = [] \<Longrightarrow> keptGames p sel = games p"
  by (simp add: keptGames_def)

lemma keptGames_active:
  "canonicalSelections sel \<noteq> [] \<Longrightarrow>
   keptGames p sel =
     filter (\<lambda>g. set (g_regions g) \<inter> set (canonicalSelections sel) \<noteq> {}) (games p)"
proof -
  have "list_ex (\<lambda>region. region \<in> S) rs \<longleftrightarrow> set rs \<inter> S \<noteq> {}" for S and rs :: "string list"
    by (auto simp: list_ex_iff)
  then show "canonicalSelections sel \<noteq> [] \<Longrightarrow> ?thesis"
    by (simp add: keptGames_def Let_def)
qed

lemma filter_result_games:
  "filterDatByRegions now p sel = Inr r \<Longrightarrow> r_games r = keptGames p sel"
  by (auto simp: filterDatByRegions_def Let_def split: if_splits)

lemma filter_fails_iff:
  "filterDatByRegions now p sel = Inl e \<longleftrightarrow> e = NoGamesMatch \<and> keptGames p sel = []"
  by (auto simp: filterDatByRegions_def Let_def split: if_splits)

lemma filter_games_total:
  "map_sum id r_games (filterDatByRegions now p sel) =
     (if keptGames p sel = [] then Inl NoGamesMatch else Inr (keptGames p sel))"
  by (simp add: filterDatByRegions_def Let_def)

lemma handlePreviewFilter_state: "snd (handlePreviewFilter now loadedDat sel) = loadedDat"
  by (simp add: handlePreviewFilter_def split: option.splits sum.splits)

lemma handlePreviewFilter_failed:
  assumes "keptGames (parsed st) sel = []"
  shows "handlePreviewFilter now (Some st) sel =
     (\<lparr>pr_success = False, pr_error = Some ''No games match the selected region filters.'',
       pr_header = None, pr_summary = None\<rparr>, Some st)"
proof -
  from assms have "filterDatByRegions now (parsed st) sel = Inl NoGamesMatch"
    by (simp add: filter_fails_iff)
  then show ?thesis
    by (simp add: handlePreviewFilter_def runFilter_def)
qed

subsection \<open>The loop over the parenthesized groups\<close>

lemma extractRegions_loop_step:
  "extractRegions_loop (g # gs) =
     (if recognizedLabels g \<noteq> [] then Some (uniq (recognizedLabels g)) else extractRegions_loop gs)"
  by (simp add: recognizedLabels_def Let_def map_filter_simps)

lemma extractRegions_loop_first:
  "\<forall>h \<in> set pre. recognizedLabels h = [] \<Longrightarrow> recognizedLabels g \<noteq> [] \<Longrightarrow>
   extractRegions_loop (pre @ g # post) = Some (uniq (recognizedLabels g))"
  by (induction pre) (simp_all add: extractRegions_loop_step del: extractRegions_loop.simps(2))

lemma extractRegions_loop_none:
  "\<forall>h \<in> set gs. recognizedLabels h = [] \<Longrightarrow> extractRegions_loop gs = None"
  by (induction gs) (simp_all add: extractRegions_loop_step del: extractRegions_loop.simps(2))

lemma extractRegions_loop_Some:
  "extractRegions_loop gs = Some r \<Longrightarrow>
   \<exists>pre g post. gs = pre @ g # post \<and> (\<forall>h \<in> set pre. recognizedLabels h = [])
      \<and> recognizedLabels g \<noteq> [] \<and> r = uniq (recognizedLabels g)"
proof (induction gs)
  case Nil
  then show ?case by simp
next
  case (Cons a gs)
  show ?case
  proof (cases "recognizedLabels a = []")
    case True
    with Cons.prems have "extractRegions_loop gs = Some r"
      by (simp add: extractRegions_loop_step del: extractRegions_loop.simps(2))
    from Cons.IH [OF this] obtain pre g post where
      "gs = pre @ g # post" "\<forall>h \<in> set pre. recognizedLabels h = []"
      "recognizedLabels g \<noteq> []" "r = uniq (recognizedLabels g)" by blast
    with True have "a # gs = (a # pre) @ g # post \<and> (\<forall>h \<in> set (a # pre). recognizedLabels h = [])
      \<and> recognizedLabels g \<noteq> [] \<and> r = uniq (recognizedLabels g)" by simp
    then show ?thesis by blast
  next
    case False
    with Cons.prems have "r = uniq (recognizedLabels a)"
      by (simp add: extractRegions_loop_step del: extractRegions_loop.simps(2))
    with False have "a # gs = [] @ a # gs \<and> (\<forall>h \<in> set []. recognizedLabels h = [])
      \<and> recognizedLabels a \<noteq> [] \<and> r = uniq (recognizedLabels a)" by simp
    then show ?thesis by blast
  qed
qed

lemma paren_groups_nonempty: "paren_groups s \<noteq> [] \<Longrightarrow> s \<noteq> []"
  by auto

lemma extractRegions_first:
  assumes "paren_groups s = pre @ g # post"
    and "\<forall>h \<in> set pre. recognizedLabels h = []"
    and "recognizedLabels g \<noteq> []"
  shows "extractRegions (Some s) = Some (uniq (recognizedLabels g))"
proof -
  from assms(1) have "s \<noteq> []" by auto
  then show ?thesis
    using extractRegions_loop_first [OF assms(2,3), of post] assms(1)
    by (simp add: extractRegions_def)
qed

lemma extractRegions_not_empty: "extractRegions input \<noteq> Some []"
proof
  assume a: "extractRegions input = Some []"
  then obtain s where "extractRegions_loop (paren_groups s) = Some []"
    by (auto simp: extractRegions_def split: option.splits if_splits)
  from extractRegions_loop_Some [OF this] obtain g where
    "recognizedLabels g \<noteq> []" "[] = uniq (recognizedLabels g)" by blast
  then show False using uniq_Nil_iff [of "recognizedLabels g"] by simp
qed

lemma normalize_Unknown: "normalizeRegionToken ''Unknown'' = Some ''Unknown''"
  by code_simp

lemma recognized_Unknown: "recognizedLabels ''Unknown'' = [''Unknown'']"
  by code_simp

lemma uniq_single: "uniq [x] = [x]"
  by (simp add: uniq_def)

lemma canonicalSelections_member:
  "normalizeRegionToken v = Some c \<Longrightarrow> c \<noteq> [] \<Longrightarrow> v \<in> set sel \<Longrightarrow> c \<in> set (canonicalSelections sel)"
  by (force simp: canonicalSelections_def set_uniq)

lemma tagged_parsed_is_parsed: "parseDat codeUnitCompare tagged_tree = Inr tagged_parsed"
  by code_simp

subsection \<open>The sample collation is an order\<close>

lemma codeUnitCompare_Cons_le:
  "codeUnitCompare (x # xs) (y # ys) \<le> 0 \<longleftrightarrow>
     (of_char x :: nat) < of_char y \<or> ((of_char x :: nat) = of_char y \<and> codeUnitCompare xs ys \<le> 0)"
  by (cases "(of_char x :: nat) < of_char y"; cases "(of_char y :: nat) < of_char x") auto

lemma codeUnitCompare_Nil_le: "codeUnitCompare [] b \<le> 0"
  by (cases b) simp_all

lemma codeUnitCompare_le_Nil: "codeUnitCompare a [] \<le> 0 \<longleftrightarrow> a = []"
  by (cases a) simp_all

lemma codeUnitCompare_total: "codeUnitCompare a b \<le> 0 \<or> codeUnitCompare b a \<le> 0"
proof (induction a arbitrary: b)
  case Nil
  then show ?case by (simp add: codeUnitCompare_Nil_le)
next
  case (Cons x xs)
  show ?case
  proof (cases b)
    case Nil
    then show ?thesis by (simp add: codeUnitCompare_Nil_le)
  next
    case (Cons y ys)
    from Cons.IH [of ys] show ?thesis
      unfolding Cons codeUnitCompare_Cons_le by linarith
  qed
qed

lemma codeUnitCompare_trans:
  "codeUnitCompare a b \<le> 0 \<Longrightarrow> codeUnitCompare b c \<le> 0 \<Longrightarrow> codeUnitCompare a c \<le> 0"
proof (induction a arbitrary: b c)
  case Nil
  then show ?case by (simp add: codeUnitCompare_Nil_le)
next
  case (Cons x xs)
  from Cons.prems(1) obtain y ys where b: "b = y # ys"
    by (cases b) (simp_all add: codeUnitCompare_le_Nil)
  from Cons.prems(2) b obtain z zs where c: "c = z # zs"
    by (cases c) (simp_all add: codeUnitCompare_le_Nil)
  from Cons.prems have
    p1: "(of_char x :: nat) < of_char y \<or> ((of_char x :: nat) = of_char y \<and> codeUnitCompare xs ys \<le> 0)"
    and p2: "(of_char y :: nat) < of_char z \<or> ((of_char y :: nat) = of_char z \<and> codeUnitCompare ys zs \<le> 0)"
    unfolding b c codeUnitCompare_Cons_le by blast+
  have "(of_char x :: nat) < of_char z \<or> ((of_char x :: nat) = of_char z \<and> codeUnitCompare xs zs \<le> 0)"
  proof (cases "(of_char x :: nat) = of_char y \<and> (of_char y :: nat) = of_char z")
    case True
    with p1 p2 have "codeUnitCompare xs ys \<le> 0" "codeUnitCompare ys zs \<le> 0" by simp_all
    then have "codeUnitCompare xs zs \<le> 0" by (rule Cons.IH)
    with True show ?thesis by simp
  next
    case False
    with p1 p2 show ?thesis by linarith
  qed
  then show ?case unfolding c codeUnitCompare_Cons_le .
qed

lemma is_collation_codeUnitCompare: "is_collation codeUnitCompare"
  unfolding is_collation_def
  using codeUnitCompare_total codeUnitCompare_trans by blast

subsection \<open>Sorting and the region vocabulary\<close>

lemma set_insort_cmp: "set (insort_cmp cmp x xs) = insert x (set xs)"
  by (induction xs) auto

lemma set_sort_cmp: "set (sort_cmp cmp xs) = set xs"
  by (induction xs) (simp_all add: sort_cmp_def set_insort_cmp)

lemma distinct_insort_cmp: "distinct (insort_cmp cmp x xs) \<longleftrightarrow> x \<notin> set xs \<and> distinct xs"
  by (induction xs) (auto simp: set_insort_cmp)

lemma distinct_sort_cmp: "distinct (sort_cmp cmp xs) \<longleftrightarrow> distinct xs"
  by (induction xs) (simp_all add: sort_cmp_def distinct_insort_cmp set_sort_cmp [unfolded sort_cmp_def])

lemma sorted_insort_cmp:
  assumes total: "\<forall>a b. cmp a b \<le> 0 \<or> cmp b a \<le> 0"
    and trans: "\<forall>a b c. cmp a b \<le> 0 \<and> cmp b c \<le> 0 \<longrightarrow> cmp a c \<le> 0"
  shows "sorted_wrt (\<lambda>a b. cmp a b \<le> 0) xs \<Longrightarrow> sorted_wrt (\<lambda>a b. cmp a b \<le> 0) (insort_cmp cmp x xs)"
proof (induction xs)
  case Nil
  then show ?case by simp
next
  case (Cons y ys)
  show ?case
  proof (cases "cmp x y \<le> 0")
    case True
    have "\<forall>z \<in> set ys. cmp x z \<le> 0"
    proof
      fix z assume "z \<in> set ys"
      with Cons.prems have "cmp y z \<le> 0" by simp
      with True trans show "cmp x z \<le> 0" by blast
    qed
    with True Cons.prems show ?thesis by simp
  next
    case False
    with total have "cmp y x \<le> 0" by blast
    with False Cons show ?thesis by (auto simp: set_insort_cmp)
  qed
qed

lemma sorted_sort_cmp:
  assumes "\<forall>a b. cmp a b \<le> 0 \<or> cmp b a \<le> 0"
    and "\<forall>a b c. cmp a b \<le> 0 \<and> cmp b c \<le> 0 \<longrightarrow> cmp a c \<le> 0"
  shows "sorted_wrt (\<lambda>a b. cmp a b \<le> 0) (sort_cmp cmp xs)"
  by (induction xs) (simp_all add: sort_cmp_def sorted_insort_cmp [OF assms])

lemma set_set_add: "set (set_add xs x) = insert x (set xs)"
  by (auto simp: set_add_def)

lemma distinct_set_add: "distinct xs \<Longrightarrow> distinct (set_add xs x)"
  by (simp add: set_add_def)

lemma set_foldl_set_add: "set (foldl set_add acc rs) = set acc \<union> set rs"
  by (induction rs arbitrary: acc) (auto simp: set_set_add)

lemma distinct_foldl_set_add: "distinct acc \<Longrightarrow> distinct (foldl set_add acc rs)"
  by (induction rs arbitrary: acc) (simp_all add: distinct_set_add)

lemma set_region_step: "set (region_step acc g) = set acc \<union> regionsOrUnknown g"
  by (simp add: region_step_def set_set_add set_foldl_set_add DEFAULT_REGION_def regionsOrUnknown_def)

lemma distinct_region_step: "distinct acc \<Longrightarrow> distinct (region_step acc g)"
  by (simp add: region_step_def distinct_set_add distinct_foldl_set_add)

lemma set_foldl_region_step:
  "set (foldl region_step acc gs) = set acc \<union> (\<Union>g \<in> set gs. regionsOrUnknown g)"
  by (induction gs arbitrary: acc) (auto simp: set_region_step)

lemma distinct_foldl_region_step: "distinct acc \<Longrightarrow> distinct (foldl region_step acc gs)"
  by (induction gs arbitrary: acc) (simp_all add: distinct_region_step)

lemma parseDat_Inr:
  assumes "parseDat cmp tree = Inr p"
  obtains datafile where
    "get_prop tree ''datafile'' = Some datafile"
    "truthy (Some datafile)"
    "normalizeHeader (case get_prop datafile ''header'' of Some h \<Rightarrow> h | None \<Rightarrow> RObj []) = Inr (header p)"
    "games p = map normalizeGame
                 (toArray (Some (case get_prop datafile ''game'' of Some g \<Rightarrow> g | None \<Rightarrow> RArr [])))"
    "availableRegions p = sort_cmp cmp (foldl region_step [] (games p))"
    "descriptor p = fst (deriveDescriptors (header p) (length (games p)))"
    "normalizedDescriptor p = snd (deriveDescriptors (header p) (length (games p)))"
    "versionLabel p = (case h_version (header p) of Some v \<Rightarrow> Some v | None \<Rightarrow> h_date (header p))"
  using assms
  by (auto simp: parseDat_def Let_def split: if_splits option.splits sum.splits)

lemma normalizeRegionToken_canonical:
  assumes "normalizeRegionToken t = Some c"
  shows "c \<in> set CANONICAL_REGIONS"
proof -
  have syn: "c \<in> set CANONICAL_REGIONS" if "map_of REGION_SYNONYMS k = Some c" for k
  proof -
    from that have "(k, c) \<in> set REGION_SYNONYMS" by (rule map_of_SomeD)
    then have "c \<in> set (map snd REGION_SYNONYMS)" by force
    then show ?thesis by (simp add: CANONICAL_REGIONS_def set_set_add set_uniq)
  qed
  from assms show ?thesis
    by (auto simp: normalizeRegionToken_def Let_def syn split: if_splits option.splits)
qed

lemma set_map_filter_conv: "set (List.map_filter f xs) = {y. \<exists>x \<in> set xs. f x = Some y}"
  by (induction xs) (auto split: option.splits)

lemma recognizedLabels_canonical: "set (recognizedLabels g) \<subseteq> set CANONICAL_REGIONS"
  by (auto simp: recognizedLabels_def set_map_filter_conv dest: normalizeRegionToken_canonical)

lemma extractRegions_canonical:
  assumes "extractRegions input = Some r"
  shows "set r \<subseteq> set CANONICAL_REGIONS \<and> distinct r \<and> r \<noteq> []"
proof -
  from assms obtain s where "extractRegions_loop (paren_groups s) = Some r"
    by (auto simp: extractRegions_def split: option.splits if_splits)
  from extractRegions_loop_Some [OF this] obtain g where
    g: "recognizedLabels g \<noteq> []" "r = uniq (recognizedLabels g)" by blast
  then show ?thesis
    using recognizedLabels_canonical [of g] uniq_Nil_iff [of "recognizedLabels g"]
    by (simp add: set_uniq distinct_uniq)
qed

lemma normalizeGame_regions:
  "set (g_regions (normalizeGame rawGame)) \<subseteq> set CANONICAL_REGIONS
   \<and> distinct (g_regions (normalizeGame rawGame))"
  by (auto simp: normalizeGame_def Let_def split: option.splits list.splits
      dest: extractRegions_canonical)

lemma availableRegions_set:
  assumes "parseDat cmp tree = Inr p"
  shows "set (availableRegions p) = (\<Union>g \<in> set (games p). regionsOrUnknown g)"
    and "distinct (availableRegions p)"
proof -
  from assms obtain datafile :: raw where
    av: "availableRegions p = sort_cmp cmp (foldl region_step [] (games p))"
    by (rule parseDat_Inr)
  show "set (availableRegions p) = (\<Union>g \<in> set (games p). regionsOrUnknown g)"
    by (simp add: av set_sort_cmp set_foldl_region_step)
  show "distinct (availableRegions p)"
    by (simp add: av distinct_sort_cmp distinct_foldl_region_step)
qed

lemma parsed_games_canonical:
  assumes "parseDat cmp tree = Inr p" and "g \<in> set (games p)"
  shows "set (g_regions g) \<subseteq> set CANONICAL_REGIONS"
proof -
  from assms(1) obtain datafile :: raw where
    "games p = map normalizeGame
                 (toArray (Some (case get_prop datafile ''game'' of Some g \<Rightarrow> g | None \<Rightarrow> RArr [])))"
    by (rule parseDat_Inr)
  with assms(2) obtain rawGame where "g = normalizeGame rawGame" by auto
  then show ?thesis using normalizeGame_regions [of rawGame] by simp
qed

lemma Unknown_canonical: "''Unknown'' \<in> set CANONICAL_REGIONS"
  by (simp add: CANONICAL_REGIONS_def set_add_def DEFAULT_REGION_def)

lemma Union_or_default:
  "(\<Union>g \<in> G. if r g = [] then {u} else set (r g)) =
     (\<Union>g \<in> G. set (r g)) \<union> (if \<exists>g \<in> G. r g = [] then {u} else {})"
  by (auto split: if_splits)

lemma mem_Union_or_default:
  "u \<in> (\<Union>g \<in> G. if r g = [] then {u} else set (r g)) \<longleftrightarrow>
     (\<exists>g \<in> G. r g = [] \<or> u \<in> set (r g))"
  by (auto split: if_splits)

lemma Union_or_default_subset:
  "u \<in> C \<Longrightarrow> \<forall>g \<in> G. set (r g) \<subseteq> C \<Longrightarrow>
   (\<Union>g \<in> G. if r g = [] then {u} else set (r g)) \<subseteq> C"
  by (auto split: if_splits)

subsection \<open>Selecting every available region\<close>

lemma canonical_all_fixed:
  "list_all (\<lambda>c. normalizeRegionToken c = Some c \<and> c \<noteq> []) CANONICAL_REGIONS"
  by code_simp

lemma canonical_fixed:
  assumes "c \<in> set CANONICAL_REGIONS"
  shows "normalizeRegionToken c = Some c" and "c \<noteq> []"
proof -
  from canonical_all_fixed
  have "\<forall>c \<in> set CANONICAL_REGIONS. normalizeRegionToken c = Some c \<and> c \<noteq> []"
    by (simp only: list_all_iff)
  from bspec [OF this assms]
  show "normalizeRegionToken c = Some c" and "c \<noteq> []" by (rule conjunct1, rule conjunct2)
qed

lemma uniq_from_distinct:
  "distinct xs \<Longrightarrow> set xs \<inter> set seen = {} \<Longrightarrow> uniq_from seen xs = xs"
  by (induction xs arbitrary: seen) auto

lemma uniq_distinct: "distinct xs \<Longrightarrow> uniq xs = xs"
  by (simp add: uniq_def uniq_from_distinct)

lemma canonicalSelections_fixed:
  assumes sub: "set xs \<subseteq> set CANONICAL_REGIONS" and dist: "distinct xs"
  shows "canonicalSelections xs = xs"
proof -
  have 1: "map (\<lambda>v. case normalizeRegionToken v of Some c \<Rightarrow> c | None \<Rightarrow> v) xs = xs"
  proof (rule map_idI)
    fix v assume "v \<in> set xs"
    with sub have "v \<in> set CANONICAL_REGIONS" by (rule subsetD)
    then have "normalizeRegionToken v = Some v" by (rule canonical_fixed(1))
    then show "(case normalizeRegionToken v of Some c \<Rightarrow> c | None \<Rightarrow> v) = v"
      by (simp only: option.case)
  qed
  have 2: "filter (\<lambda>v. v \<noteq> []) xs = xs"
  proof (rule filter_True, rule ballI)
    fix v assume "v \<in> set xs"
    with sub have "v \<in> set CANONICAL_REGIONS" by (rule subsetD)
    then show "v \<noteq> []" by (rule canonical_fixed(2))
  qed
  show ?thesis
    unfolding canonicalSelections_def 1 2 by (rule uniq_distinct [OF dist])
qed

lemma mem_not_empty: "x \<in> A \<Longrightarrow> A \<noteq> {}"
  by (rule notI) simp

lemma keptGames_full:
  assumes "parseDat cmp tree = Inr p"
  shows "keptGames p (availableRegions p) = filter (\<lambda>g. g_regions g \<noteq> []) (games p)"
proof -
  note av = availableRegions_set [OF assms]
  have sub: "set (availableRegions p) \<subseteq> set CANONICAL_REGIONS"
  proof -
    have "\<forall>g \<in> set (games p). set (g_regions g) \<subseteq> set CANONICAL_REGIONS"
      by (intro ballI) (rule parsed_games_canonical [OF assms])
    with Unknown_canonical show ?thesis
      unfolding av(1) regionsOrUnknown_def
      by (rule Union_or_default_subset [where r = g_regions and G = "set (games p)" and u = "''Unknown''"])
  qed
  have cs: "canonicalSelections (availableRegions p) = availableRegions p"
    by (rule canonicalSelections_fixed [OF sub av(2)])
  have covered: "x \<in> set (availableRegions p)"
    if g: "g \<in> set (games p)" and x: "x \<in> regionsOrUnknown g" for g x
  proof -
    from g x have "x \<in> (\<Union>g \<in> set (games p). regionsOrUnknown g)" by (rule UN_I)
    then show ?thesis by (simp only: av(1))
  qed
  show ?thesis
  proof (cases "availableRegions p = []")
    case True
    have "games p = []"
    proof (rule ccontr)
      assume "games p \<noteq> []"
      then have g: "hd (games p) \<in> set (games p)" by (rule hd_in_set)
      have "\<exists>x. x \<in> regionsOrUnknown (hd (games p))"
        by (simp add: regionsOrUnknown_def ex_in_conv)
      then obtain x where "x \<in> regionsOrUnknown (hd (games p))" ..
      with g have "x \<in> set (availableRegions p)" by (rule covered)
      with True show False by simp
    qed
    with True cs show ?thesis by (simp add: keptGames_inactive)
  next
    case False
    have "(set (g_regions g) \<inter> set (availableRegions p) \<noteq> {}) = (g_regions g \<noteq> [])"
      if g: "g \<in> set (games p)" for g
    proof (cases "g_regions g = []")
      case True
      then show ?thesis by simp
    next
      case ne: False
      then have x: "hd (g_regions g) \<in> set (g_regions g)" by (rule hd_in_set)
      with ne have "hd (g_regions g) \<in> regionsOrUnknown g" by (simp add: regionsOrUnknown_def)
      with g have "hd (g_regions g) \<in> set (availableRegions p)" by (rule covered)
      with x have "hd (g_regions g) \<in> set (g_regions g) \<inter> set (availableRegions p)" by (rule IntI)
      then have "set (g_regions g) \<inter> set (availableRegions p) \<noteq> {}" by (rule mem_not_empty)
      with ne show ?thesis by simp
    qed
    then have "filter (\<lambda>g. set (g_regions g) \<inter> set (availableRegions p) \<noteq> {}) (games p)
        = filter (\<lambda>g. g_regions g \<noteq> []) (games p)"
      by (intro filter_cong refl)
    with False cs show ?thesis by (simp add: keptGames_active)
  qed
qed

lemma canonicalSelections_Nil: "canonicalSelections [] = []"
  by (simp add: canonicalSelections_def uniq_def)

lemma length_filter_eq_iff:
  "length (filter P xs) = length xs \<longleftrightarrow> (\<forall>x \<in> set xs. P x)"
proof
  assume "length (filter P xs) = length xs"
  then show "\<forall>x \<in> set xs. P x"
    using length_filter_less [of _ xs P] by (metis nat_neq_iff)
next
  assume "\<forall>x \<in> set xs. P x"
  then show "length (filter P xs) = length xs" by simp
qed

lemma filter_count_total:
  "map_sum id (s_filteredGames \<circ> r_summary) (filterDatByRegions now p sel) =
     (if keptGames p sel = [] then Inl NoGamesMatch else Inr (length (keptGames p sel)))"
  by (simp add: filterDatByRegions_def Let_def)

subsection \<open>The canonicalized selection\<close>

lemma set_canonicalSelections:
  "set (canonicalSelections sel) =
     {c. \<exists>v \<in> set sel. normalizeRegionToken v = Some c}
     \<union> {v \<in> set sel. v \<noteq> [] \<and> normalizeRegionToken v = None}"
proof (rule set_eqI, rule iffI)
  fix x assume "x \<in> set (canonicalSelections sel)"
  then obtain v where v: "v \<in> set sel"
    and x: "x = (case normalizeRegionToken v of Some c \<Rightarrow> c | None \<Rightarrow> v)" and ne: "x \<noteq> []"
    unfolding canonicalSelections_def set_uniq by auto
  show "x \<in> {c. \<exists>v \<in> set sel. normalizeRegionToken v = Some c}
     \<union> {v \<in> set sel. v \<noteq> [] \<and> normalizeRegionToken v = None}"
  proof (cases "normalizeRegionToken v")
    case None
    with x have "x = v" by simp
    with v ne None show ?thesis by simp
  next
    case (Some c)
    with x have "x = c" by simp
    with v Some show ?thesis by blast
  qed
next
  fix x assume "x \<in> {c. \<exists>v \<in> set sel. normalizeRegionToken v = Some c}
     \<union> {v \<in> set sel. v \<noteq> [] \<and> normalizeRegionToken v = None}"
  then consider v where "v \<in> set sel" "normalizeRegionToken v = Some x"
    | "x \<in> set sel" "x \<noteq> []" "normalizeRegionToken x = None" by auto
  then show "x \<in> set (canonicalSelections sel)"
  proof cases
    case 1
    from 1(2) have "x \<in> set CANONICAL_REGIONS" by (rule normalizeRegionToken_canonical)
    then have "x \<noteq> []" by (rule canonical_fixed(2))
    with 1 show ?thesis by (rule canonicalSelections_member [rotated 1, rotated 1]) 
  next
    case 2
    then have "x \<in> (\<lambda>v. case normalizeRegionToken v of Some c \<Rightarrow> c | None \<Rightarrow> v) ` set sel"
      by (intro image_eqI [where x = x]) simp_all
    with 2(2) show ?thesis
      unfolding canonicalSelections_def set_uniq by simp
  qed
qed

lemma filter_selection_total:
  "map_sum id (s_selectedRegions \<circ> r_summary) (filterDatByRegions now p sel) =
     (if keptGames p sel = [] then Inl NoGamesMatch else Inr (canonicalSelections sel))"
  by (simp add: filterDatByRegions_def Let_def)

subsection \<open>First occurrences and the sources of an entry\<close>

lemma remdups_snoc: "remdups (ys @ [x]) = remdups (filter (\<lambda>y. y \<noteq> x) ys) @ [x]"
  by (induction ys) auto

lemma uniq_from_first_occurrence:
  "uniq_from seen xs = rev (remdups (rev (filter (\<lambda>x. x \<notin> set seen) xs)))"
proof (induction xs arbitrary: seen)
  case Nil
  show ?case by simp
next
  case (Cons x xs)
  show ?case
  proof (cases "x \<in> set seen")
    case True
    then show ?thesis by (simp add: Cons.IH)
  next
    case False
    have "filter (\<lambda>y. y \<noteq> x) (rev (filter (\<lambda>y. y \<notin> set seen) xs))
        = rev (filter (\<lambda>y. y \<notin> set (x # seen)) xs)"
      by (simp add: rev_filter [symmetric] conj_commute)
    then have "remdups (rev (filter (\<lambda>y. y \<notin> set seen) xs) @ [x])
        = remdups (rev (filter (\<lambda>y. y \<notin> set (x # seen)) xs)) @ [x]"
      by (simp only: remdups_snoc)
    with False show ?thesis by (simp add: Cons.IH)
  qed
qed

lemma uniq_first_occurrence: "uniq xs = rev (remdups (rev xs))"
  by (simp add: uniq_def uniq_from_first_occurrence)

lemma extractRegions_none:
  assumes "\<forall>h \<in> set (paren_groups s). recognizedLabels h = []"
  shows "extractRegions (Some s) = None"
  using extractRegions_loop_none [OF assms] by (simp add: extractRegions_def)

lemma normalizeGame_sources:
  "g_regions (normalizeGame rawGame) =
    (case extractRegions (Some (g_name (normalizeGame rawGame))) of
       Some r \<Rightarrow> r
     | None \<Rightarrow>
        (case extractRegions (Some (g_description (normalizeGame rawGame))) of
           Some r \<Rightarrow> r
         | None \<Rightarrow>
            (case g_roms (normalizeGame rawGame) of
               [] \<Rightarrow> []
             | rom # _ \<Rightarrow>
                (case extractRegions (map_of (attributes rom) ''name'') of
                   Some r \<Rightarrow> r
                 | None \<Rightarrow> []))))"
  by (simp add: normalizeGame_def Let_def split: option.splits list.splits)

lemma map_of_obj_set:
  "map_of (obj_set attrs key v) k = (if k = key then Some v else map_of attrs k)"
  by (induction attrs key v rule: obj_set.induct) auto

lemma attribute_key_name:
  "take 2 key = ''@_'' \<and> drop 2 key = ''name'' \<longleftrightarrow> key = ''@_name''"
proof
  assume "take 2 key = ''@_'' \<and> drop 2 key = ''name''"
  then have "take 2 key @ drop 2 key = ''@_'' @ ''name''" by (simp only:)
  then show "key = ''@_name''" by simp
next
  assume "key = ''@_name''"
  then show "take 2 key = ''@_'' \<and> drop 2 key = ''name''" by simp
qed

lemma attr_step_name:
  "map_of (attr_step attrs (''@_name'', v)) ''name'' = Some (coerceText (Some v))"
  by (simp add: attr_step_def map_of_obj_set)

lemma attr_step_other:
  assumes "key \<noteq> ''@_name''"
  shows "map_of (attr_step attrs (key, v)) ''name'' = map_of attrs ''name''"
proof (cases "take 2 key = ''@_''")
  case True
  with assms have "drop 2 key \<noteq> ''name''" using attribute_key_name [of key] by blast
  with True show ?thesis by (simp add: attr_step_def map_of_obj_set)
next
  case False
  then show ?thesis by (simp add: attr_step_def)
qed

lemma attr_fold_name:
  "distinct (map fst kvs) \<Longrightarrow>
   map_of (foldl attr_step attrs kvs) ''name'' =
     (case map_of kvs ''@_name'' of
        Some v \<Rightarrow> Some (coerceText (Some v))
      | None \<Rightarrow> map_of attrs ''name'')"
proof (induction kvs arbitrary: attrs)
  case Nil
  show ?case by simp
next
  case (Cons kv kvs)
  obtain k v where kv: "kv = (k, v)" by (cases kv)
  from Cons.prems kv have dist: "distinct (map fst kvs)" and fresh: "k \<notin> fst ` set kvs"
    by simp_all
  note ih = Cons.IH [OF dist, of "attr_step attrs (k, v)"]
  show ?case
  proof (cases "k = ''@_name''")
    case True
    with fresh have none: "map_of kvs ''@_name'' = None" by (simp add: map_of_eq_None_iff)
    from True have "map_of (attr_step attrs (k, v)) ''name'' = Some (coerceText (Some v))"
      by (simp only: attr_step_name)
    with True ih kv none show ?thesis by simp
  next
    case False
    then have "map_of (attr_step attrs (k, v)) ''name'' = map_of attrs ''name''"
      by (rule attr_step_other)
    with False ih kv show ?thesis
      by (cases "map_of kvs ''@_name''") simp_all
  qed
qed

lemma mapRomAttributes_name:
  assumes "distinct (map fst (entries rawRom))"
  shows "map_of (mapRomAttributes rawRom) ''name'' = romNameAttribute rawRom"
proof (cases "truthy (Some rawRom)")
  case False
  then show ?thesis by (simp add: mapRomAttributes_def romNameAttribute_def)
next
  case True
  then have "mapRomAttributes rawRom = foldl attr_step [] (entries rawRom)"
    by (simp add: mapRomAttributes_def attr_step_def)
  with True show ?thesis
    unfolding romNameAttribute_def
    by (cases "map_of (entries rawRom) ''@_name''") (simp_all add: attr_fold_name [OF assms])
qed

lemma normalizeGame_name: "g_name (normalizeGame rawGame) = entryName rawGame"
  by (simp add: normalizeGame_def entryName_def Let_def)

lemma normalizeGame_description:
  "g_description (normalizeGame rawGame) = coerceText (get_prop rawGame ''description'')"
  by (simp add: normalizeGame_def Let_def)

lemma normalizeGame_roms:
  "g_roms (normalizeGame rawGame) =
     map (\<lambda>rom. \<lparr>attributes = mapRomAttributes rom\<rparr>) (toArray (get_prop rawGame ''rom''))"
  by (simp add: normalizeGame_def Let_def)

lemma normalizeGame_raw_sources:
  assumes "firstRomKeysDistinct rawGame"
  shows "g_regions (normalizeGame rawGame) =
    (case extractRegions (Some (entryName rawGame)) of
       Some r \<Rightarrow> r
     | None \<Rightarrow>
        (case extractRegions (Some (coerceText (get_prop rawGame ''description''))) of
           Some r \<Rightarrow> r
         | None \<Rightarrow>
            (case toArray (get_prop rawGame ''rom'') of
               [] \<Rightarrow> []
             | rawRom # _ \<Rightarrow>
                (case extractRegions (romNameAttribute rawRom) of
                   Some r \<Rightarrow> r
                 | None \<Rightarrow> []))))"
proof (cases "toArray (get_prop rawGame ''rom'')")
  case Nil
  then have "g_roms (normalizeGame rawGame) = []" by (simp add: normalizeGame_roms)
  then show ?thesis
    unfolding normalizeGame_sources normalizeGame_name normalizeGame_description Nil
    by (simp split: option.splits)
next
  case (Cons rawRom rest)
  with assms have "distinct (map fst (entries rawRom))" by (simp add: firstRomKeysDistinct_def)
  then have name: "map_of (mapRomAttributes rawRom) ''name'' = romNameAttribute rawRom"
    by (rule mapRomAttributes_name)
  from Cons have "g_roms (normalizeGame rawGame) =
      \<lparr>attributes = mapRomAttributes rawRom\<rparr>
        # map (\<lambda>rom. \<lparr>attributes = mapRomAttributes rom\<rparr>) rest"
    by (simp add: normalizeGame_roms)
  then show ?thesis
    unfolding normalizeGame_sources normalizeGame_name normalizeGame_description Cons
    by (simp add: name split: option.splits)
qed

lemma normalizeGame_regionsBySources:
  "firstRomKeysDistinct rawGame \<Longrightarrow> g_regions (normalizeGame rawGame) = regionsBySources rawGame"
  unfolding regionsBySources_def by (rule normalizeGame_raw_sources)

lemma normalizeGame_name_wins:
  assumes "extractRegions (Some (entryName rawGame)) = Some r"
  shows "g_regions (normalizeGame rawGame) = r"
  unfolding normalizeGame_sources normalizeGame_name using assms by simp

lemma normalizeGame_description_second:
  assumes "extractRegions (Some (entryName rawGame)) = None"
    and "extractRegions (Some (coerceText (get_prop rawGame ''description''))) = Some r"
  shows "g_regions (normalizeGame rawGame) = r"
  unfolding normalizeGame_sources normalizeGame_name normalizeGame_description
  using assms by simp

subsection \<open>The header name\<close>

lemma header_step_name: "h_name (header_step hdr (''name'', v)) = coerceText (Some v)"
  by (simp add: header_step_def Let_def)

lemma header_step_other: "k \<noteq> ''name'' \<Longrightarrow> h_name (header_step hdr (k, v)) = h_name hdr"
  by (simp add: header_step_def Let_def)

lemma header_fold_name:
  "distinct (map fst kvs) \<Longrightarrow>
   h_name (foldl header_step hdr kvs) =
     (case map_of kvs ''name'' of None \<Rightarrow> h_name hdr | Some v \<Rightarrow> coerceText (Some v))"
proof (induction kvs arbitrary: hdr)
  case Nil
  show ?case by simp
next
  case (Cons kv kvs)
  obtain k v where kv: "kv = (k, v)" by (cases kv)
  from Cons.prems kv have dist: "distinct (map fst kvs)" and fresh: "k \<notin> fst ` set kvs"
    by simp_all
  note ih = Cons.IH [OF dist, of "header_step hdr (k, v)"]
  show ?case
  proof (cases "k = ''name''")
    case True
    with fresh have "map_of kvs ''name'' = None" by (simp add: map_of_eq_None_iff)
    with True ih kv show ?thesis by (simp add: header_step_name)
  next
    case False
    with ih kv show ?thesis
      by (cases "map_of kvs ''name''") (simp_all add: header_step_other)
  qed
qed

lemma normalizeHeader_name:
  assumes "distinct (map fst (entries rawHeader))"
  shows "normalizeHeader rawHeader =
     (if coerceText (map_of (entries rawHeader) ''name'') = [] then Inl MissingHeaderName
      else Inr (foldl header_step emptyHeader (entries rawHeader)))"
proof -
  have "h_name (foldl header_step emptyHeader (entries rawHeader))
      = coerceText (map_of (entries rawHeader) ''name'')"
    unfolding header_fold_name [OF assms]
    by (cases "map_of (entries rawHeader) ''name''") (simp_all add: emptyHeader_def)
  then show ?thesis by (simp add: normalizeHeader_def Let_def)
qed

lemma normalizeHeader_Inr_name: "normalizeHeader rawHeader = Inr hdr \<Longrightarrow> h_name hdr \<noteq> []"
  by (auto simp: normalizeHeader_def Let_def split: if_splits)

lemma normalizeHeader_Inl: "normalizeHeader rawHeader = Inl e \<Longrightarrow> e = MissingHeaderName"
  by (auto simp: normalizeHeader_def Let_def split: if_splits)

lemma parseDat_no_root: "get_prop tree ''datafile'' = None \<Longrightarrow> parseDat cmp tree = Inl MissingDatafileRoot"
  by (simp add: parseDat_def)

lemma parseDat_falsy_root:
  "get_prop tree ''datafile'' = Some d \<Longrightarrow> \<not> truthy (Some d) \<Longrightarrow>
   parseDat cmp tree = Inl MissingDatafileRoot \<and> headerNameField tree = None"
proof -
  assume d: "get_prop tree ''datafile'' = Some d" and f: "\<not> truthy (Some d)"
  from f have "get_prop d ''header'' = None" by (cases d) simp_all
  with d have "headerNameField tree = None"
    by (simp add: headerNameField_def rawHeaderOf_def)
  moreover from d f have "parseDat cmp tree = Inl MissingDatafileRoot"
    by (simp add: parseDat_def)
  ultimately show ?thesis by (rule conjI [rotated])
qed

lemma parseDat_truthy_root:
  assumes "get_prop tree ''datafile'' = Some d" and "truthy (Some d)"
  shows "map_sum id header (parseDat cmp tree) = normalizeHeader (rawHeaderOf tree)"
  using assms
  by (simp add: parseDat_def rawHeaderOf_def Let_def split: sum.splits option.splits)

subsection \<open>The rebuilt header\<close>

lemma blank_parsed_is_parsed: "parseDat codeUnitCompare blank_tree = Inr blank_parsed"
  by code_simp

lemma join_nonempty: "xs \<noteq> [] \<Longrightarrow> \<forall>x \<in> set xs. x \<noteq> [] \<Longrightarrow> join sep xs \<noteq> []"
  by (induction sep xs rule: join.induct) simp_all

lemma canonicalSelections_members_nonempty: "\<forall>x \<in> set (canonicalSelections sel). x \<noteq> []"
  by (simp add: canonicalSelections_def set_uniq)

lemma createRegionLabel_selection:
  "createRegionLabel (canonicalSelections sel) =
     (if canonicalSelections sel = [] then [] else join '', '' (canonicalSelections sel))"
  by (simp add: createRegionLabel_def)

lemma regionLabel_empty_iff:
  "createRegionLabel (canonicalSelections sel) = [] \<longleftrightarrow> canonicalSelections sel = []"
  using join_nonempty [OF _ canonicalSelections_members_nonempty, of sel "'', ''"]
  by (simp add: createRegionLabel_def)

lemma version_of_parsed:
  assumes "versionLabel p = (case h_version (header p) of Some v \<Rightarrow> Some v | None \<Rightarrow> h_date (header p))"
  shows "(case versionLabel p of
            Some v \<Rightarrow> v
          | None \<Rightarrow> (case h_version (header p) of
                       Some v \<Rightarrow> v
                     | None \<Rightarrow> (case h_date (header p) of Some d \<Rightarrow> d | None \<Rightarrow> today)))
       = (case h_version (header p) of
            Some v \<Rightarrow> v
          | None \<Rightarrow> (case h_date (header p) of Some d \<Rightarrow> d | None \<Rightarrow> today))"
  unfolding assms by (cases "h_version (header p)"; cases "h_date (header p)") simp_all

lemma buildFilteredHeader_selection:
  "buildFilteredHeader now hdr n (canonicalSelections sel) d vl =
     (let decorated =
            (if canonicalSelections sel = [] then h_name hdr
             else h_name hdr @ '' ('' @ join '', '' (canonicalSelections sel) @ '')'')
      in hdr\<lparr>h_name := decorated,
             h_description :=
               Some (decorated @ '' - '' @ d @ '' ('' @ decimal n @ '') (''
                     @ (case vl of
                          Some v \<Rightarrow> v
                        | None \<Rightarrow> (case h_version hdr of
                                     Some v \<Rightarrow> v
                                   | None \<Rightarrow> (case h_date hdr of
                                                Some d \<Rightarrow> d
                                              | None \<Rightarrow> isoDate now)))
                     @ '')'')\<rparr>)"
proof (cases "canonicalSelections sel = []")
  case True
  then have "createRegionLabel (canonicalSelections sel) = []"
    by (simp add: createRegionLabel_def)
  with True show ?thesis by (simp add: buildFilteredHeader_def Let_def)
next
  case False
  then have label: "createRegionLabel (canonicalSelections sel) = join '', '' (canonicalSelections sel)"
    by (simp add: createRegionLabel_def)
  from False have "join '', '' (canonicalSelections sel) \<noteq> []"
    by (rule join_nonempty [OF _ canonicalSelections_members_nonempty])
  with False show ?thesis by (simp add: buildFilteredHeader_def Let_def label)
qed

lemma filter_header_total:
  assumes "versionLabel p = (case h_version (header p) of Some v \<Rightarrow> Some v | None \<Rightarrow> h_date (header p))"
  shows "map_sum id r_header (filterDatByRegions now p sel) =
     (if keptGames p sel = [] then Inl NoGamesMatch
      else
        (let decorated =
               (if canonicalSelections sel = [] then h_name (header p)
                else h_name (header p) @ '' ('' @ join '', '' (canonicalSelections sel) @ '')'')
         in Inr ((header p)
              \<lparr>h_name := decorated,
               h_description :=
                 Some (decorated @ '' - ''
                       @ (if descriptor p = [] then ''Datfile'' else descriptor p)
                       @ '' ('' @ decimal (length (keptGames p sel)) @ '') (''
                       @ (case h_version (header p) of
                            Some v \<Rightarrow> v
                          | None \<Rightarrow> (case h_date (header p) of
                                       Some d \<Rightarrow> d
                                     | None \<Rightarrow> isoDate now))
                       @ '')'')\<rparr>)))"
proof (cases "keptGames p sel = []")
  case True
  then show ?thesis by (simp add: filterDatByRegions_def Let_def)
next
  case False
  have d: "(if descriptor p \<noteq> [] then descriptor p else ''Datfile'')
      = (if descriptor p = [] then ''Datfile'' else descriptor p)" by simp
  from False have "map_sum id r_header (filterDatByRegions now p sel) =
      Inr (buildFilteredHeader now (header p) (length (keptGames p sel)) (canonicalSelections sel)
        (if descriptor p \<noteq> [] then descriptor p else ''Datfile'') (versionLabel p))"
    by (simp add: filterDatByRegions_def Let_def)
  then show ?thesis
    unfolding buildFilteredHeader_selection d version_of_parsed [OF assms]
    using False by (simp only: if_False Let_def)
qed

subsection \<open>Descriptors\<close>

lemma prefix_ci_iff:
  "prefix_ci pat s \<longleftrightarrow> (\<exists>mid post. s = mid @ post \<and> map asciiUpper mid = map asciiUpper pat)"
proof (induction pat s rule: prefix_ci.induct)
  case (1 s)
  show ?case by simp
next
  case (2 p ps)
  show ?case by simp
next
  case (3 p ps c cs)
  show ?case
  proof
    assume "prefix_ci (p # ps) (c # cs)"
    then have eq: "asciiUpper p = asciiUpper c" and "prefix_ci ps cs" by simp_all
    with 3 obtain mid post where "cs = mid @ post" "map asciiUpper mid = map asciiUpper ps"
      by blast
    with eq have "c # cs = (c # mid) @ post \<and> map asciiUpper (c # mid) = map asciiUpper (p # ps)"
      by simp
    then show "\<exists>mid post. c # cs = mid @ post \<and> map asciiUpper mid = map asciiUpper (p # ps)"
      by blast
  next
    assume "\<exists>mid post. c # cs = mid @ post \<and> map asciiUpper mid = map asciiUpper (p # ps)"
    then obtain mid post where m: "c # cs = mid @ post" "map asciiUpper mid = map asciiUpper (p # ps)"
      by blast
    from m(2) obtain m0 ms where mid: "mid = m0 # ms" by (cases mid) simp_all
    with m have "c = m0" "cs = ms @ post" "asciiUpper m0 = asciiUpper p"
      "map asciiUpper ms = map asciiUpper ps" by simp_all
    with 3 show "prefix_ci (p # ps) (c # cs)" by auto
  qed
qed

lemma test_ci_iff:
  "test_ci pat s \<longleftrightarrow>
     (\<exists>pre mid post. s = pre @ mid @ post \<and> map asciiUpper mid = map asciiUpper pat)"
proof (induction s)
  case Nil
  show ?case by (simp add: prefix_ci_iff)
next
  case (Cons c cs)
  show ?case
  proof
    assume "test_ci pat (c # cs)"
    then consider "prefix_ci pat (c # cs)" | "test_ci pat cs" by auto
    then show "\<exists>pre mid post. c # cs = pre @ mid @ post \<and> map asciiUpper mid = map asciiUpper pat"
    proof cases
      case 1
      then obtain mid post where "c # cs = mid @ post" "map asciiUpper mid = map asciiUpper pat"
        unfolding prefix_ci_iff by blast
      then have "c # cs = [] @ mid @ post \<and> map asciiUpper mid = map asciiUpper pat" by simp
      then show ?thesis by blast
    next
      case 2
      with Cons obtain pre mid post where "cs = pre @ mid @ post"
        "map asciiUpper mid = map asciiUpper pat" by blast
      then have "c # cs = (c # pre) @ mid @ post \<and> map asciiUpper mid = map asciiUpper pat" by simp
      then show ?thesis by blast
    qed
  next
    assume "\<exists>pre mid post. c # cs = pre @ mid @ post \<and> map asciiUpper mid = map asciiUpper pat"
    then obtain pre mid post where m: "c # cs = pre @ mid @ post"
      "map asciiUpper mid = map asciiUpper pat" by blast
    show "test_ci pat (c # cs)"
    proof (cases pre)
      case Nil
      with m have "prefix_ci pat (c # cs)" unfolding prefix_ci_iff by auto
      then show ?thesis by simp
    next
      case (Cons a as)
      with m have "cs = as @ mid @ post" by simp
      with m(2) Cons.IH have "test_ci pat cs" by blast
      then show ?thesis by simp
    qed
  qed
qed

lemma normalizeDescriptorLabel_Datfile: "normalizeDescriptorLabel ''Datfile'' = ''Datfile''"
  by code_simp

lemma normalizeDescriptorLabel_eq:
  "normalizeDescriptorLabel label =
     (if test_ci ''datfile'' label \<or> test_ci ''disc'' label then ''Datfile'' else label)"
  by (simp add: normalizeDescriptorLabel_def)

lemma extractGenericDescriptor_unmatched:
  "rx_search generic_pattern d = None \<Longrightarrow>
   extractGenericDescriptor d = (if test_ci ''datfile'' d then Some ''Datfile'' else None)"
  by (simp add: extractGenericDescriptor_def)

lemma deriveDescriptors_unmatched:
  assumes "tryExtractDescriptor d (h_name hdr) n = None"
    and "rx_search generic_pattern d = None"
    and "d = (case h_description hdr of Some x \<Rightarrow> x | None \<Rightarrow> [])"
  shows "deriveDescriptors hdr n = (''Datfile'', ''Datfile'')"
proof -
  have "extractGenericDescriptor d = Some ''Datfile'' \<or> extractGenericDescriptor d = None"
    by (simp add: extractGenericDescriptor_unmatched [OF assms(2)])
  then show ?thesis
    using assms(1) unfolding assms(3)
    by (auto simp: deriveDescriptors_def Let_def normalizeDescriptorLabel_Datfile)
qed

lemma deriveDescriptors_normalized:
  "snd (deriveDescriptors hdr n) = normalizeDescriptorLabel (fst (deriveDescriptors hdr n))"
  by (simp add: deriveDescriptors_def Let_def normalizeDescriptorLabel_Datfile
      split: option.splits)

section \<open>The claims\<close>

text \<open>
  \<^bold>\<open>C1.\<close> As stated the claim fails: a selected string that normalizes to no canonical
  label is not dropped, the filter keeps it as it is (\<^verbatim>\<open>normalizeRegionToken(value) ?? value\<close>);
  only the empty string is dropped. What holds: the selected-region list of a result is
  the list of the selected strings, each replaced by its canonical label where token
  normalization gives one and kept verbatim otherwise, without the empty ones and without
  repetitions (first occurrences, in order); so each member is a canonical label or a
  non-empty selected string that normalization does not recognize.
\<close>

theorem selection_canonicalized_or_verbatim:
  "map_sum id (s_selectedRegions \<circ> r_summary) (filterDatByRegions now p sel) =
     (if keptGames p sel = [] then Inl NoGamesMatch else Inr (canonicalSelections sel))
   \<and> canonicalSelections sel =
       uniq (filter (\<lambda>v. v \<noteq> [])
              (map (\<lambda>v. case normalizeRegionToken v of Some c \<Rightarrow> c | None \<Rightarrow> v) sel))
   \<and> distinct (canonicalSelections sel)
   \<and> set (canonicalSelections sel) =
       {c. \<exists>v \<in> set sel. normalizeRegionToken v = Some c}
       \<union> {v \<in> set sel. v \<noteq> [] \<and> normalizeRegionToken v = None}
   \<and> (\<forall>x \<in> set (canonicalSelections sel).
         x \<in> set CANONICAL_REGIONS
         \<or> (x \<in> set sel \<and> x \<noteq> [] \<and> normalizeRegionToken x = None))"
proof (intro conjI ballI)
  show "map_sum id (s_selectedRegions \<circ> r_summary) (filterDatByRegions now p sel) =
     (if keptGames p sel = [] then Inl NoGamesMatch else Inr (canonicalSelections sel))"
    by (rule filter_selection_total)
next
  show "canonicalSelections sel =
       uniq (filter (\<lambda>v. v \<noteq> [])
              (map (\<lambda>v. case normalizeRegionToken v of Some c \<Rightarrow> c | None \<Rightarrow> v) sel))"
    by (rule canonicalSelections_def)
next
  show "distinct (canonicalSelections sel)"
    unfolding canonicalSelections_def by (rule distinct_uniq)
next
  show "set (canonicalSelections sel) =
       {c. \<exists>v \<in> set sel. normalizeRegionToken v = Some c}
       \<union> {v \<in> set sel. v \<noteq> [] \<and> normalizeRegionToken v = None}"
    by (rule set_canonicalSelections)
next
  fix x assume "x \<in> set (canonicalSelections sel)"
  then have "x \<in> {c. \<exists>v \<in> set sel. normalizeRegionToken v = Some c}
       \<union> {v \<in> set sel. v \<noteq> [] \<and> normalizeRegionToken v = None}"
    by (simp only: set_canonicalSelections)
  then consider v where "normalizeRegionToken v = Some x"
    | "x \<in> set sel \<and> x \<noteq> [] \<and> normalizeRegionToken x = None" by auto
  then show "x \<in> set CANONICAL_REGIONS
         \<or> (x \<in> set sel \<and> x \<noteq> [] \<and> normalizeRegionToken x = None)"
  proof cases
    case 1
    then have "x \<in> set CANONICAL_REGIONS" by (rule normalizeRegionToken_canonical)
    then show ?thesis by (rule disjI1)
  next
    case 2
    then show ?thesis by (rule disjI2)
  qed
qed

theorem selection_canonicalized_or_verbatim_witness:
  "map_sum id (s_selectedRegions \<circ> r_summary)
     (filterDatByRegions sample_now sample_parsed loose_selection) = Inr [''USA'', ''Narnia'']
   \<and> canonicalSelections loose_selection = [''USA'', ''Narnia'']
   \<and> ''USA'' \<in> set (canonicalSelections loose_selection)
   \<and> ''USA'' \<in> set CANONICAL_REGIONS
   \<and> ''Narnia'' \<in> set (canonicalSelections loose_selection)
   \<and> (''Narnia'' \<in> set CANONICAL_REGIONS
        \<or> (''Narnia'' \<in> set loose_selection \<and> ''Narnia'' \<noteq> []
            \<and> normalizeRegionToken ''Narnia'' = None))"
proof -
  note c1 = selection_canonicalized_or_verbatim [of sample_now sample_parsed loose_selection]
  have kept: "keptGames sample_parsed loose_selection \<noteq> []" by code_simp
  have cs: "canonicalSelections loose_selection = [''USA'', ''Narnia'']" by code_simp
  from c1 have "map_sum id (s_selectedRegions \<circ> r_summary)
     (filterDatByRegions sample_now sample_parsed loose_selection) =
     (if keptGames sample_parsed loose_selection = [] then Inl NoGamesMatch
      else Inr (canonicalSelections loose_selection))" by (rule conjunct1)
  with kept cs have 1: "map_sum id (s_selectedRegions \<circ> r_summary)
     (filterDatByRegions sample_now sample_parsed loose_selection) = Inr [''USA'', ''Narnia'']"
    by simp
  have usa: "''USA'' \<in> set (canonicalSelections loose_selection)" by (simp add: cs)
  have narnia: "''Narnia'' \<in> set (canonicalSelections loose_selection)" by (simp add: cs)
  have canon: "''USA'' \<in> set CANONICAL_REGIONS" by code_simp
  from c1 have all: "\<forall>x \<in> set (canonicalSelections loose_selection).
         x \<in> set CANONICAL_REGIONS
         \<or> (x \<in> set loose_selection \<and> x \<noteq> [] \<and> normalizeRegionToken x = None)"
    by (elim conjE)
  from bspec [OF all narnia] have 2: "''Narnia'' \<in> set CANONICAL_REGIONS
        \<or> (''Narnia'' \<in> set loose_selection \<and> ''Narnia'' \<noteq> []
            \<and> normalizeRegionToken ''Narnia'' = None)" .
  from 1 cs usa canon narnia 2 show ?thesis by (intro conjI)
qed

theorem selection_keeps_unrecognized_counterexample:
  "parseDat codeUnitCompare sample_tree = Inr sample_parsed
   \<and> map_sum id (s_selectedRegions \<circ> r_summary)
        (filterDatByRegions sample_now sample_parsed [''Narnia'', ''USA''])
       = Inr [''Narnia'', ''USA'']
   \<and> normalizeRegionToken ''Narnia'' = None
   \<and> ''Narnia'' \<notin> set CANONICAL_REGIONS"
  by code_simp

text \<open>
  \<^bold>\<open>C2.\<close> As stated (the full available-region list as selection gives the same entry
  count as the empty selection) the claim fails: the list offers \<^verbatim>\<open>Unknown\<close> for the
  entries with no region, yet a selection that is not empty never keeps them. What holds
  for every parsed document: the full list keeps exactly the entries with at least one
  detected region, the empty selection keeps all, and the two counts agree exactly when
  no entry has zero detected regions.
\<close>

theorem full_selection_keeps_tagged:
  assumes "parseDat cmp tree = Inr p"
  shows "keptGames p (availableRegions p) = filter (\<lambda>g. g_regions g \<noteq> []) (games p)
    \<and> keptGames p [] = games p
    \<and> (length (keptGames p (availableRegions p)) = length (keptGames p [])
         \<longleftrightarrow> (\<forall>g \<in> set (games p). g_regions g \<noteq> []))
    \<and> ((\<forall>g \<in> set (games p). g_regions g \<noteq> []) \<longrightarrow>
          map_sum id (s_filteredGames \<circ> r_summary) (filterDatByRegions now p (availableRegions p))
          = map_sum id (s_filteredGames \<circ> r_summary) (filterDatByRegions now p []))"
proof -
  note full = keptGames_full [OF assms]
  have none: "keptGames p [] = games p"
    by (rule keptGames_inactive [OF canonicalSelections_Nil])
  have len: "length (keptGames p (availableRegions p)) = length (keptGames p [])
         \<longleftrightarrow> (\<forall>g \<in> set (games p). g_regions g \<noteq> [])"
    unfolding full none by (rule length_filter_eq_iff)
  have same: "map_sum id (s_filteredGames \<circ> r_summary) (filterDatByRegions now p (availableRegions p))
          = map_sum id (s_filteredGames \<circ> r_summary) (filterDatByRegions now p [])"
    if "\<forall>g \<in> set (games p). g_regions g \<noteq> []"
  proof -
    from that have "keptGames p (availableRegions p) = keptGames p []"
      unfolding full none by simp
    then show ?thesis by (simp only: filter_count_total)
  qed
  from full none len same show ?thesis by (intro conjI impI)
qed

theorem full_selection_keeps_tagged_witness:
  "parseDat codeUnitCompare tagged_tree = Inr tagged_parsed
   \<and> list_all (\<lambda>g. g_regions g \<noteq> []) (games tagged_parsed)
   \<and> keptGames tagged_parsed (availableRegions tagged_parsed)
       = filter (\<lambda>g. g_regions g \<noteq> []) (games tagged_parsed)
   \<and> length (keptGames tagged_parsed (availableRegions tagged_parsed))
       = length (keptGames tagged_parsed [])
   \<and> map_sum id (s_filteredGames \<circ> r_summary)
        (filterDatByRegions sample_now tagged_parsed (availableRegions tagged_parsed))
       = map_sum id (s_filteredGames \<circ> r_summary)
        (filterDatByRegions sample_now tagged_parsed [])"
proof -
  have tagged: "list_all (\<lambda>g. g_regions g \<noteq> []) (games tagged_parsed)" by code_simp
  then have all: "\<forall>g \<in> set (games tagged_parsed). g_regions g \<noteq> []"
    by (simp only: list_all_iff)
  note c2 = full_selection_keeps_tagged [OF tagged_parsed_is_parsed, of sample_now]
  from c2 have 1: "keptGames tagged_parsed (availableRegions tagged_parsed)
       = filter (\<lambda>g. g_regions g \<noteq> []) (games tagged_parsed)"
    by (rule conjunct1)
  from c2 all have 2: "length (keptGames tagged_parsed (availableRegions tagged_parsed))
       = length (keptGames tagged_parsed [])"
    by (elim conjE) (rule iffD2)
  from c2 all have 3: "map_sum id (s_filteredGames \<circ> r_summary)
        (filterDatByRegions sample_now tagged_parsed (availableRegions tagged_parsed))
       = map_sum id (s_filteredGames \<circ> r_summary)
        (filterDatByRegions sample_now tagged_parsed [])"
    by (elim conjE) (rule mp)
  from tagged_parsed_is_parsed tagged 1 2 3 show ?thesis by (intro conjI)
qed

theorem full_selection_count_counterexample:
  "parseDat codeUnitCompare sample_tree = Inr sample_parsed
   \<and> map_sum id (s_filteredGames \<circ> r_summary)
        (filterDatByRegions sample_now sample_parsed (availableRegions sample_parsed)) = Inr 2
   \<and> map_sum id (s_filteredGames \<circ> r_summary)
        (filterDatByRegions sample_now sample_parsed []) = Inr 3"
  by code_simp

text \<open>
  \<^bold>\<open>C3.\<close> As stated the claim fails in its "only if": an entry tagged \<^verbatim>\<open>(Unknown)\<close> puts
  \<^verbatim>\<open>Unknown\<close> into the list although no entry has zero regions. What holds for every
  parsed document: the list has no duplicates; its members are the labels extracted from
  some entry, together with \<^verbatim>\<open>Unknown\<close> when some entry has zero regions, so \<^verbatim>\<open>Unknown\<close>
  is present exactly when an entry has zero regions or carries that label itself; all are
  canonical; and the list is sorted by the host's comparator whenever that is an order.
\<close>

theorem available_regions_vocabulary:
  assumes "parseDat cmp tree = Inr p"
  shows "distinct (availableRegions p)
    \<and> set (availableRegions p) =
        (\<Union>g \<in> set (games p). set (g_regions g))
        \<union> (if \<exists>g \<in> set (games p). g_regions g = [] then {''Unknown''} else {})
    \<and> (''Unknown'' \<in> set (availableRegions p) \<longleftrightarrow>
         (\<exists>g \<in> set (games p). g_regions g = [] \<or> ''Unknown'' \<in> set (g_regions g)))
    \<and> set (availableRegions p) \<subseteq> set CANONICAL_REGIONS
    \<and> (is_collation cmp \<longrightarrow> sorted_wrt (\<lambda>a b. cmp a b \<le> 0) (availableRegions p))"
proof -
  note av = availableRegions_set [OF assms]
  have eq: "set (availableRegions p) =
        (\<Union>g \<in> set (games p). set (g_regions g))
        \<union> (if \<exists>g \<in> set (games p). g_regions g = [] then {''Unknown''} else {})"
    unfolding av(1) regionsOrUnknown_def
    by (fact Union_or_default [where r = g_regions and G = "set (games p)" and u = "''Unknown''"])
  have unk: "''Unknown'' \<in> set (availableRegions p) \<longleftrightarrow>
         (\<exists>g \<in> set (games p). g_regions g = [] \<or> ''Unknown'' \<in> set (g_regions g))"
    unfolding av(1) regionsOrUnknown_def
    by (fact mem_Union_or_default [where r = g_regions and G = "set (games p)" and u = "''Unknown''"])
  have canon: "set (availableRegions p) \<subseteq> set CANONICAL_REGIONS"
  proof -
    have "\<forall>g \<in> set (games p). set (g_regions g) \<subseteq> set CANONICAL_REGIONS"
      by (intro ballI) (rule parsed_games_canonical [OF assms])
    with Unknown_canonical show ?thesis
      unfolding av(1) regionsOrUnknown_def
      by (rule Union_or_default_subset [where r = g_regions and G = "set (games p)" and u = "''Unknown''"])
  qed
  have sorted: "sorted_wrt (\<lambda>a b. cmp a b \<le> 0) (availableRegions p)" if coll: "is_collation cmp"
  proof -
    from assms obtain datafile :: raw where
      sorted_list: "availableRegions p = sort_cmp cmp (foldl region_step [] (games p))"
      by (rule parseDat_Inr)
    from coll have total: "\<forall>a b. cmp a b \<le> 0 \<or> cmp b a \<le> 0"
      unfolding is_collation_def by (rule conjunct1)
    from coll have trans: "\<forall>a b c. cmp a b \<le> 0 \<and> cmp b c \<le> 0 \<longrightarrow> cmp a c \<le> 0"
      unfolding is_collation_def by (rule conjunct2)
    show ?thesis
      unfolding sorted_list by (rule sorted_sort_cmp [OF total trans])
  qed
  from av(2) eq unk canon sorted show ?thesis by (intro conjI impI)
qed

theorem available_regions_vocabulary_witness:
  "parseDat codeUnitCompare sample_tree = Inr sample_parsed
   \<and> is_collation codeUnitCompare
   \<and> availableRegions sample_parsed = [''Europe'', ''USA'', ''Unknown'']
   \<and> distinct (availableRegions sample_parsed)
   \<and> set (availableRegions sample_parsed) =
        (\<Union>g \<in> set (games sample_parsed). set (g_regions g))
        \<union> (if \<exists>g \<in> set (games sample_parsed). g_regions g = [] then {''Unknown''} else {})
   \<and> set (availableRegions sample_parsed) \<subseteq> set CANONICAL_REGIONS
   \<and> sorted_wrt (\<lambda>a b. codeUnitCompare a b \<le> 0) (availableRegions sample_parsed)"
proof -
  have av: "availableRegions sample_parsed = [''Europe'', ''USA'', ''Unknown'']"
    by (simp add: sample_parsed_def)
  note c3 = available_regions_vocabulary [OF sample_parsed_is_parsed]
  from c3 have 1: "distinct (availableRegions sample_parsed)" by (rule conjunct1)
  from c3 have 2: "set (availableRegions sample_parsed) =
        (\<Union>g \<in> set (games sample_parsed). set (g_regions g))
        \<union> (if \<exists>g \<in> set (games sample_parsed). g_regions g = [] then {''Unknown''} else {})"
    by (elim conjE)
  from c3 have 3: "set (availableRegions sample_parsed) \<subseteq> set CANONICAL_REGIONS"
    by (elim conjE)
  from c3 have "is_collation codeUnitCompare \<longrightarrow>
      sorted_wrt (\<lambda>a b. codeUnitCompare a b \<le> 0) (availableRegions sample_parsed)"
    by (elim conjE)
  with is_collation_codeUnitCompare
  have 4: "sorted_wrt (\<lambda>a b. codeUnitCompare a b \<le> 0) (availableRegions sample_parsed)"
    by (rule rev_mp)
  from sample_parsed_is_parsed is_collation_codeUnitCompare av 1 2 3 4
  show ?thesis by (intro conjI)
qed

theorem available_regions_unknown_counterexample:
  "parseDat codeUnitCompare tagged_tree = Inr tagged_parsed
   \<and> availableRegions tagged_parsed = [''Europe'', ''USA'', ''Unknown'']
   \<and> map g_regions (games tagged_parsed) = [[''USA'', ''Europe''], [''Unknown'']]"
  by code_simp

text \<open>
  \<^bold>\<open>C4.\<close> If the canonicalized selection is empty the filter keeps every entry; if it
  is not empty the filter keeps exactly the entries whose region set meets the
  selection, in their order, so no entry with zero regions is kept by a selection that
  is not empty. What the filter returns is this kept sequence, or the failure when the
  sequence is empty.
\<close>

theorem filter_keeps_all_or_intersecting:
  "(canonicalSelections sel = [] \<longrightarrow> keptGames p sel = games p)
   \<and> (canonicalSelections sel \<noteq> [] \<longrightarrow>
        keptGames p sel =
          filter (\<lambda>g. set (g_regions g) \<inter> set (canonicalSelections sel) \<noteq> {}) (games p)
        \<and> (\<forall>g \<in> set (games p). g_regions g = [] \<longrightarrow> g \<notin> set (keptGames p sel)))
   \<and> map_sum id r_games (filterDatByRegions now p sel) =
        (if keptGames p sel = [] then Inl NoGamesMatch else Inr (keptGames p sel))"
proof (intro conjI impI)
  assume "canonicalSelections sel = []"
  then show "keptGames p sel = games p" by (rule keptGames_inactive)
next
  assume active: "canonicalSelections sel \<noteq> []"
  then show kept: "keptGames p sel =
      filter (\<lambda>g. set (g_regions g) \<inter> set (canonicalSelections sel) \<noteq> {}) (games p)"
    by (rule keptGames_active)
  show "\<forall>g \<in> set (games p). g_regions g = [] \<longrightarrow> g \<notin> set (keptGames p sel)"
    by (simp add: kept)
next
  show "map_sum id r_games (filterDatByRegions now p sel) =
        (if keptGames p sel = [] then Inl NoGamesMatch else Inr (keptGames p sel))"
    by (rule filter_games_total)
qed


theorem filter_keeps_all_or_intersecting_witness:
  "canonicalSelections [] = []
   \<and> keptGames sample_parsed [] = games sample_parsed
   \<and> canonicalSelections [''usa''] \<noteq> []
   \<and> keptGames sample_parsed [''usa''] =
       filter (\<lambda>g. set (g_regions g) \<inter> set (canonicalSelections [''usa'']) \<noteq> {})
         (games sample_parsed)
   \<and> game_alpha \<in> set (games sample_parsed) \<and> g_regions game_alpha = []
   \<and> game_alpha \<notin> set (keptGames sample_parsed [''usa''])
   \<and> map_sum id r_games (filterDatByRegions sample_now sample_parsed [''usa'']) = Inr [game_bravo]"
proof -
  have inactive: "canonicalSelections [] = []" by code_simp
  have active: "canonicalSelections [''usa''] \<noteq> []" by code_simp
  have member: "game_alpha \<in> set (games sample_parsed)" by code_simp
  have zero: "g_regions game_alpha = []" by code_simp
  have res: "map_sum id r_games (filterDatByRegions sample_now sample_parsed [''usa'']) = Inr [game_bravo]" by code_simp
  note c4a = filter_keeps_all_or_intersecting [of "[]" sample_parsed sample_now]
  note c4b = filter_keeps_all_or_intersecting [of "[''usa'']" sample_parsed sample_now]
  show ?thesis
    using c4a c4b inactive active member zero res by blast
qed

text \<open>
  \<^bold>\<open>C5.\<close> The filter fails exactly when the kept sequence is empty, and every failure
  is \<open>NoMatches\<close>; in particular it fails when the canonicalized selection is not empty
  and meets no entry's region set. A failed preview carries the message and neither a
  header nor a summary, and the handler leaves the loaded document as it was (as it does
  on every path).
\<close>

theorem filter_fails_iff_nothing_kept:
  "((\<exists>e. filterDatByRegions now p sel = Inl e) \<longleftrightarrow> keptGames p sel = [])
   \<and> (\<forall>e. filterDatByRegions now p sel = Inl e \<longrightarrow> NoMatches e)
   \<and> (canonicalSelections sel \<noteq> []
        \<and> (\<forall>g \<in> set (games p). set (g_regions g) \<inter> set (canonicalSelections sel) = {})
        \<longrightarrow> filterDatByRegions now p sel = Inl NoGamesMatch)
   \<and> (keptGames (parsed st) sel = [] \<longrightarrow>
        handlePreviewFilter now (Some st) sel =
          (\<lparr>pr_success = False,
            pr_error = Some ''No games match the selected region filters.'',
            pr_header = None, pr_summary = None\<rparr>, Some st))
   \<and> snd (handlePreviewFilter now loadedDat sel) = loadedDat"
proof (intro conjI impI allI)
  show "(\<exists>e. filterDatByRegions now p sel = Inl e) \<longleftrightarrow> keptGames p sel = []"
    by (simp add: filter_fails_iff)
next
  fix e assume "filterDatByRegions now p sel = Inl e"
  then show "NoMatches e" by (simp add: filter_fails_iff NoMatches_def)
next
  assume a: "canonicalSelections sel \<noteq> []
    \<and> (\<forall>g \<in> set (games p). set (g_regions g) \<inter> set (canonicalSelections sel) = {})"
  then have "keptGames p sel = []"
    by (simp add: keptGames_active filter_empty_conv)
  then show "filterDatByRegions now p sel = Inl NoGamesMatch"
    by (simp add: filter_fails_iff)
next
  assume "keptGames (parsed st) sel = []"
  then show "handlePreviewFilter now (Some st) sel =
          (\<lparr>pr_success = False,
            pr_error = Some ''No games match the selected region filters.'',
            pr_header = None, pr_summary = None\<rparr>, Some st)"
    by (rule handlePreviewFilter_failed)
next
  show "snd (handlePreviewFilter now loadedDat sel) = loadedDat"
    by (rule handlePreviewFilter_state)
qed

theorem filter_fails_iff_nothing_kept_witness:
  "canonicalSelections [''Japan''] \<noteq> []
   \<and> list_all (\<lambda>g. set (g_regions g) \<inter> set (canonicalSelections [''Japan'']) = {})
       (games sample_parsed)
   \<and> filterDatByRegions sample_now sample_parsed [''Japan''] = Inl NoGamesMatch
   \<and> NoMatches NoGamesMatch
   \<and> keptGames (parsed sample_state) [''Japan''] = []
   \<and> handlePreviewFilter sample_now (Some sample_state) [''Japan''] =
       (\<lparr>pr_success = False,
         pr_error = Some ''No games match the selected region filters.'',
         pr_header = None, pr_summary = None\<rparr>, Some sample_state)"
proof -
  have active: "canonicalSelections [''Japan''] \<noteq> []" by code_simp
  have disjoint: "list_all (\<lambda>g. set (g_regions g) \<inter> set (canonicalSelections [''Japan'']) = {})
       (games sample_parsed)" by code_simp
  have st: "parsed sample_state = sample_parsed" by (simp add: sample_state_def)
  note c5 = filter_fails_iff_nothing_kept [of sample_now sample_parsed "[''Japan'']" sample_state]
  from c5 active disjoint have failed:
    "filterDatByRegions sample_now sample_parsed [''Japan''] = Inl NoGamesMatch"
    by (simp add: list_all_iff)
  with c5 have kept: "keptGames sample_parsed [''Japan''] = []" by blast
  from c5 failed have nm: "NoMatches NoGamesMatch" by blast
  from c5 kept st show ?thesis
    using active disjoint failed nm by simp
qed

text \<open>
  \<^bold>\<open>C6.\<close> The region set that \<open>normalizeGame\<close> gives an entry is read from the entry
  itself: it is what region extraction gives for the entry's name (its \<^verbatim>\<open>name\<close> attribute,
  else the text of its \<^verbatim>\<open>name\<close> child), else for the text of its \<^verbatim>\<open>description\<close>, else for
  the \<^verbatim>\<open>name\<close> attribute of its first \<^verbatim>\<open>rom\<close> child, else empty (the first \<^verbatim>\<open>rom\<close> child
  having each key once, as every object has). A name that yields regions decides alone,
  and so does a description under a name that yields none; an extraction never gives an
  empty list, so the sources are never merged. Within one string the first parenthesized
  group that yields a recognized label gives the whole result, its labels without
  repetitions in the order of their first occurrence, whatever groups follow; when no
  group yields a label there is no result.
\<close>

theorem region_sources_first_group_wins:
  "(firstRomKeysDistinct rawGame \<longrightarrow>
      g_regions (normalizeGame rawGame) = regionsBySources rawGame)
   \<and> g_name (normalizeGame rawGame) = entryName rawGame
   \<and> g_description (normalizeGame rawGame) = coerceText (get_prop rawGame ''description'')
   \<and> (extractRegions (Some (entryName rawGame)) = Some r
        \<longrightarrow> g_regions (normalizeGame rawGame) = r)
   \<and> (extractRegions (Some (entryName rawGame)) = None
        \<and> extractRegions (Some (coerceText (get_prop rawGame ''description''))) = Some r
        \<longrightarrow> g_regions (normalizeGame rawGame) = r)
   \<and> g_regions (normalizeGame rawGame) =
      (case extractRegions (Some (g_name (normalizeGame rawGame))) of
         Some r \<Rightarrow> r
       | None \<Rightarrow>
          (case extractRegions (Some (g_description (normalizeGame rawGame))) of
             Some r \<Rightarrow> r
           | None \<Rightarrow>
              (case g_roms (normalizeGame rawGame) of
                 [] \<Rightarrow> []
               | rom # _ \<Rightarrow>
                  (case extractRegions (map_of (attributes rom) ''name'') of
                     Some r \<Rightarrow> r
                   | None \<Rightarrow> []))))
   \<and> extractRegions input \<noteq> Some []
   \<and> (paren_groups s = pre @ g # post
        \<and> (\<forall>h \<in> set pre. recognizedLabels h = []) \<and> recognizedLabels g \<noteq> []
        \<longrightarrow> extractRegions (Some s) = Some (uniq (recognizedLabels g))
            \<and> extractRegions_loop (pre @ g # others) = Some (uniq (recognizedLabels g)))
   \<and> ((\<forall>h \<in> set (paren_groups s). recognizedLabels h = []) \<longrightarrow> extractRegions (Some s) = None)
   \<and> distinct (uniq xs) \<and> set (uniq xs) = set xs \<and> uniq xs = rev (remdups (rev xs))"
proof (intro conjI impI)
  assume "firstRomKeysDistinct rawGame"
  then show "g_regions (normalizeGame rawGame) = regionsBySources rawGame"
    by (rule normalizeGame_regionsBySources)
next
  show "g_name (normalizeGame rawGame) = entryName rawGame" by (rule normalizeGame_name)
next
  show "g_description (normalizeGame rawGame) = coerceText (get_prop rawGame ''description'')"
    by (rule normalizeGame_description)
next
  assume "extractRegions (Some (entryName rawGame)) = Some r"
  then show "g_regions (normalizeGame rawGame) = r" by (rule normalizeGame_name_wins)
next
  assume a: "extractRegions (Some (entryName rawGame)) = None
        \<and> extractRegions (Some (coerceText (get_prop rawGame ''description''))) = Some r"
  show "g_regions (normalizeGame rawGame) = r"
    by (rule normalizeGame_description_second [OF a [THEN conjunct1] a [THEN conjunct2]])
next
  show "g_regions (normalizeGame rawGame) =
      (case extractRegions (Some (g_name (normalizeGame rawGame))) of
         Some r \<Rightarrow> r
       | None \<Rightarrow>
          (case extractRegions (Some (g_description (normalizeGame rawGame))) of
             Some r \<Rightarrow> r
           | None \<Rightarrow>
              (case g_roms (normalizeGame rawGame) of
                 [] \<Rightarrow> []
               | rom # _ \<Rightarrow>
                  (case extractRegions (map_of (attributes rom) ''name'') of
                     Some r \<Rightarrow> r
                   | None \<Rightarrow> []))))"
    by (rule normalizeGame_sources)
next
  show "extractRegions input \<noteq> Some []" by (rule extractRegions_not_empty)
next
  assume a: "paren_groups s = pre @ g # post
        \<and> (\<forall>h \<in> set pre. recognizedLabels h = []) \<and> recognizedLabels g \<noteq> []"
  from a have groups: "paren_groups s = pre @ g # post" by (rule conjunct1)
  from a have unrec: "\<forall>h \<in> set pre. recognizedLabels h = []" by (elim conjE)
  from a have rec: "recognizedLabels g \<noteq> []" by (elim conjE)
  show "extractRegions (Some s) = Some (uniq (recognizedLabels g))"
    by (rule extractRegions_first [OF groups unrec rec])
  show "extractRegions_loop (pre @ g # others) = Some (uniq (recognizedLabels g))"
    by (rule extractRegions_loop_first [OF unrec rec])
next
  assume "\<forall>h \<in> set (paren_groups s). recognizedLabels h = []"
  then show "extractRegions (Some s) = None" by (rule extractRegions_none)
next
  show "distinct (uniq xs)" by (rule distinct_uniq)
next
  show "set (uniq xs) = set xs" by (rule set_uniq)
next
  show "uniq xs = rev (remdups (rev xs))" by (rule uniq_first_occurrence)
qed

theorem region_sources_first_group_wins_witness:
  "extractRegions (Some (entryName raw_foxtrot)) = Some [''USA'']
   \<and> g_regions (normalizeGame raw_foxtrot) = [''USA'']
   \<and> firstRomKeysDistinct raw_delta
   \<and> extractRegions (Some (entryName raw_delta)) = None
   \<and> extractRegions (Some (coerceText (get_prop raw_delta ''description''))) = Some [''Japan'']
   \<and> regionsBySources raw_delta = [''Japan'']
   \<and> g_regions (normalizeGame raw_delta) = [''Japan'']
   \<and> firstRomKeysDistinct raw_echo
   \<and> g_name (normalizeGame raw_echo) = ''Echo''
   \<and> regionsBySources raw_echo = [''Korea'']
   \<and> g_regions (normalizeGame raw_echo) = [''Korea'']
   \<and> firstRomKeysDistinct raw_alpha
   \<and> regionsBySources raw_alpha = []
   \<and> g_regions (normalizeGame raw_alpha) = []
   \<and> paren_groups ''Bravo (Demo) (USA, Europe & usa) (Japan)''
       = [''Demo''] @ ''USA, Europe & usa'' # [''Japan'']
   \<and> list_all (\<lambda>h. recognizedLabels h = []) [''Demo'']
   \<and> recognizedLabels ''USA, Europe & usa'' = [''USA'', ''Europe'', ''USA'']
   \<and> extractRegions (Some ''Bravo (Demo) (USA, Europe & usa) (Japan)'')
       = Some (uniq (recognizedLabels ''USA, Europe & usa''))
   \<and> uniq (recognizedLabels ''USA, Europe & usa'') = [''USA'', ''Europe'']
   \<and> extractRegions_loop ([''Demo''] @ ''USA, Europe & usa'' # [''World'', ''Asia''])
       = Some (uniq (recognizedLabels ''USA, Europe & usa''))
   \<and> list_all (\<lambda>h. recognizedLabels h = []) (paren_groups ''Alpha (Demo)'')
   \<and> extractRegions (Some ''Alpha (Demo)'') = None"
proof -
  have nf: "extractRegions (Some (entryName raw_foxtrot)) = Some [''USA'']" by code_simp
  note foxtrot = region_sources_first_group_wins [where rawGame = raw_foxtrot and r = "[''USA'']",
      THEN conjunct2, THEN conjunct2, THEN conjunct2, THEN conjunct1, THEN mp, OF nf]
  have kd: "firstRomKeysDistinct raw_delta" by code_simp
  have nd: "extractRegions (Some (entryName raw_delta)) = None" by code_simp
  have dd: "extractRegions (Some (coerceText (get_prop raw_delta ''description''))) = Some [''Japan'']"
    by code_simp
  have sd: "regionsBySources raw_delta = [''Japan'']" by code_simp
  note delta = region_sources_first_group_wins [where rawGame = raw_delta and r = "[''Japan'']",
      THEN conjunct2, THEN conjunct2, THEN conjunct2, THEN conjunct2, THEN conjunct1, THEN mp,
      OF conjI [OF nd dd]]
  have ke: "firstRomKeysDistinct raw_echo" by code_simp
  have ee: "entryName raw_echo = ''Echo''" by code_simp
  note ename = trans [OF region_sources_first_group_wins [where rawGame = raw_echo,
      THEN conjunct2, THEN conjunct1] ee]
  have se: "regionsBySources raw_echo = [''Korea'']" by code_simp
  note echo = trans [OF region_sources_first_group_wins [where rawGame = raw_echo, THEN conjunct1, THEN mp, OF ke] se]
  have ka: "firstRomKeysDistinct raw_alpha" by code_simp
  have sa: "regionsBySources raw_alpha = []" by code_simp
  note alpha = trans [OF region_sources_first_group_wins [where rawGame = raw_alpha, THEN conjunct1, THEN mp, OF ka] sa]
  have groups: "paren_groups ''Bravo (Demo) (USA, Europe & usa) (Japan)''
       = [''Demo''] @ ''USA, Europe & usa'' # [''Japan'']" by code_simp
  have pre: "list_all (\<lambda>h. recognizedLabels h = []) [''Demo'']" by code_simp
  then have pre': "\<forall>h \<in> set [''Demo'']. recognizedLabels h = []" by (simp only: list_all_iff)
  have labels: "recognizedLabels ''USA, Europe & usa'' = [''USA'', ''Europe'', ''USA'']"
    by code_simp
  then have ne: "recognizedLabels ''USA, Europe & usa'' \<noteq> []" by simp
  have dedup: "uniq (recognizedLabels ''USA, Europe & usa'') = [''USA'', ''Europe'']" by code_simp
  have none: "list_all (\<lambda>h. recognizedLabels h = []) (paren_groups ''Alpha (Demo)'')" by code_simp
  then have none': "\<forall>h \<in> set (paren_groups ''Alpha (Demo)''). recognizedLabels h = []"
    by (simp only: list_all_iff)
  note first = region_sources_first_group_wins [where s = "''Bravo (Demo) (USA, Europe & usa) (Japan)''" and pre = "[''Demo'']"
      and g = "''USA, Europe & usa''" and post = "[''Japan'']" and others = "[''World'', ''Asia'']",
      THEN conjunct2, THEN conjunct2, THEN conjunct2, THEN conjunct2, THEN conjunct2,
      THEN conjunct2, THEN conjunct2, THEN conjunct1, THEN mp,
      OF conjI [OF groups conjI [OF pre' ne]]]
  note unrec = region_sources_first_group_wins [where s = "''Alpha (Demo)''",
      THEN conjunct2, THEN conjunct2, THEN conjunct2, THEN conjunct2, THEN conjunct2,
      THEN conjunct2, THEN conjunct2, THEN conjunct2, THEN conjunct1, THEN mp, OF none']
  from nf foxtrot kd nd dd sd delta ke ename se echo ka sa alpha groups pre labels first dedup none unrec
  show ?thesis by (elim conjE, intro conjI)
qed

text \<open>
  \<^bold>\<open>C7.\<close> For a tree whose header has each field once (as every object has), \<open>parseDat\<close>
  fails exactly when the root element \<^verbatim>\<open>datafile\<close> is absent, or the header's \<^verbatim>\<open>name\<close>
  field is absent, or its text is empty; every failure is \<open>InvalidFormat\<close>; and the header
  name of every parsed document is not empty. (A root element that is present but empty
  has no header, hence no name field. What \<^verbatim>\<open>xmlParser.parse\<close> itself may reject lies
  before the tree.)
\<close>

theorem parse_fails_iff_no_root_or_name:
  assumes "distinct (map fst (entries (rawHeaderOf tree)))"
  shows "((\<exists>e. parseDat cmp tree = Inl e) \<longleftrightarrow>
            get_prop tree ''datafile'' = None
            \<or> headerNameField tree = None
            \<or> coerceText (headerNameField tree) = [])
    \<and> (\<forall>e. parseDat cmp tree = Inl e \<longrightarrow> InvalidFormat e)
    \<and> (\<forall>p. parseDat cmp tree = Inr p \<longrightarrow> h_name (header p) \<noteq> [])"
proof (cases "get_prop tree ''datafile''")
  case None
  then have "parseDat cmp tree = Inl MissingDatafileRoot" by (rule parseDat_no_root)
  with None show ?thesis by (simp add: InvalidFormat_def)
next
  case (Some d)
  show ?thesis
  proof (cases "truthy (Some d)")
    case False
    with Some have "parseDat cmp tree = Inl MissingDatafileRoot \<and> headerNameField tree = None"
      by (rule parseDat_falsy_root)
    then show ?thesis by (simp add: InvalidFormat_def)
  next
    case True
    have hdr: "map_sum id header (parseDat cmp tree) =
       (if coerceText (headerNameField tree) = [] then Inl MissingHeaderName
        else Inr (foldl header_step emptyHeader (entries (rawHeaderOf tree))))"
      unfolding parseDat_truthy_root [OF Some True] headerNameField_def
      by (rule normalizeHeader_name [OF assms])
    have none: "coerceText (headerNameField tree) = []" if "headerNameField tree = None"
      using that by simp
    show ?thesis
    proof (cases "coerceText (headerNameField tree) = []")
      case empty: True
      with hdr have "map_sum id header (parseDat cmp tree) = Inl MissingHeaderName" by simp
      then have "parseDat cmp tree = Inl MissingHeaderName"
        by (cases "parseDat cmp tree") simp_all
      with empty show ?thesis by (simp add: InvalidFormat_def)
    next
      case nonempty: False
      with hdr have ok: "map_sum id header (parseDat cmp tree) =
          Inr (foldl header_step emptyHeader (entries (rawHeaderOf tree)))" by simp
      then obtain p where p: "parseDat cmp tree = Inr p"
        by (cases "parseDat cmp tree") simp_all
      with ok have "normalizeHeader (rawHeaderOf tree) = Inr (header p)"
        using parseDat_truthy_root [OF Some True, of cmp] by simp
      then have "h_name (header p) \<noteq> []" by (rule normalizeHeader_Inr_name)
      moreover from nonempty have "headerNameField tree \<noteq> None"
        by (cases "headerNameField tree") simp_all
      ultimately show ?thesis using p nonempty Some by simp
    qed
  qed
qed

theorem parse_fails_iff_no_root_or_name_witness:
  "distinct (map fst (entries (rawHeaderOf sample_tree)))
   \<and> coerceText (headerNameField sample_tree) = ''Sega - Saturn''
   \<and> parseDat codeUnitCompare sample_tree = Inr sample_parsed
   \<and> h_name (header sample_parsed) \<noteq> []
   \<and> distinct (map fst (entries (rawHeaderOf nameless_tree)))
   \<and> headerNameField nameless_tree = None
   \<and> parseDat codeUnitCompare nameless_tree = Inl MissingHeaderName
   \<and> InvalidFormat MissingHeaderName
   \<and> distinct (map fst (entries (rawHeaderOf rootless_tree)))
   \<and> get_prop rootless_tree ''datafile'' = None
   \<and> (\<exists>e. parseDat codeUnitCompare rootless_tree = Inl e)"
proof -
  have d1: "distinct (map fst (entries (rawHeaderOf sample_tree)))" by code_simp
  have n1: "coerceText (headerNameField sample_tree) = ''Sega - Saturn''" by code_simp
  have d2: "distinct (map fst (entries (rawHeaderOf nameless_tree)))" by code_simp
  have n2: "headerNameField nameless_tree = None" by code_simp
  have p2: "parseDat codeUnitCompare nameless_tree = Inl MissingHeaderName" by code_simp
  have d3: "distinct (map fst (entries (rawHeaderOf rootless_tree)))" by code_simp
  have n3: "get_prop rootless_tree ''datafile'' = None" by code_simp
  note ok = parse_fails_iff_no_root_or_name [OF d1, of codeUnitCompare]
  note nameless = parse_fails_iff_no_root_or_name [OF d2, of codeUnitCompare]
  note rootless = parse_fails_iff_no_root_or_name [OF d3, of codeUnitCompare]
  note 1 = ok [THEN conjunct2, THEN conjunct2, THEN spec, THEN mp, OF sample_parsed_is_parsed]
  note 2 = nameless [THEN conjunct2, THEN conjunct1, THEN spec, THEN mp, OF p2]
  from n3 have "get_prop rootless_tree ''datafile'' = None
            \<or> headerNameField rootless_tree = None
            \<or> coerceText (headerNameField rootless_tree) = []" by (rule disjI1)
  with rootless [THEN conjunct1] have 3: "\<exists>e. parseDat codeUnitCompare rootless_tree = Inl e"
    by (rule iffD2)
  from d1 n1 sample_parsed_is_parsed 1 d2 n2 p2 2 d3 n3 3 show ?thesis by (intro conjI)
qed

text \<open>
  \<^bold>\<open>C8.\<close> As stated the claim fails where the document's descriptor is empty: the
  description then carries the literal \<^verbatim>\<open>Datfile\<close> in its place
  (\<^verbatim>\<open>parsed.descriptor || 'Datfile'\<close>). What holds for every parsed document: a
  successful filter returns the document's header with the name decorated by the selected
  regions, joined by \<^verbatim>\<open>", "\<close> in selection order, in parentheses (unchanged when no
  selection is active), and with the description made of the decorated name, \<^verbatim>\<open>" - "\<close>, the
  original descriptor (\<^verbatim>\<open>Datfile\<close> when that is empty), the filtered count in parentheses and
  the version label in parentheses: the version field, else the date field, else today's
  date as the ISO timestamp gives it.
\<close>

theorem rebuilt_header:
  assumes "parseDat cmp tree = Inr p"
  shows "map_sum id r_header (filterDatByRegions now p sel) =
     (if keptGames p sel = [] then Inl NoGamesMatch
      else
        (let decorated =
               (if canonicalSelections sel = [] then h_name (header p)
                else h_name (header p) @ '' ('' @ join '', '' (canonicalSelections sel) @ '')'')
         in Inr ((header p)
              \<lparr>h_name := decorated,
               h_description :=
                 Some (decorated @ '' - ''
                       @ (if descriptor p = [] then ''Datfile'' else descriptor p)
                       @ '' ('' @ decimal (length (keptGames p sel)) @ '') (''
                       @ (case h_version (header p) of
                            Some v \<Rightarrow> v
                          | None \<Rightarrow> (case h_date (header p) of
                                       Some d \<Rightarrow> d
                                     | None \<Rightarrow> isoDate now))
                       @ '')'')\<rparr>)))"
proof -
  from assms obtain datafile :: raw where
    "versionLabel p = (case h_version (header p) of Some v \<Rightarrow> Some v | None \<Rightarrow> h_date (header p))"
    by (rule parseDat_Inr)
  then show ?thesis by (rule filter_header_total)
qed

theorem rebuilt_header_witness:
  "parseDat codeUnitCompare sample_tree = Inr sample_parsed
   \<and> map_sum id r_header (filterDatByRegions sample_now sample_parsed [''World'', ''usa'']) =
       Inr ((header sample_parsed)
             \<lparr>h_name := ''Sega - Saturn (World, USA)'',
              h_description := Some ''Sega - Saturn (World, USA) - Datfile (1) (2025-11-07)''\<rparr>)
   \<and> map_sum id r_header (filterDatByRegions sample_now sample_parsed []) =
       Inr ((header sample_parsed)
             \<lparr>h_name := ''Sega - Saturn'',
              h_description := Some ''Sega - Saturn - Datfile (3) (2025-11-07)''\<rparr>)"
proof -
  note sel = rebuilt_header [OF sample_parsed_is_parsed, of sample_now "[''World'', ''usa'']"]
  note all = rebuilt_header [OF sample_parsed_is_parsed, of sample_now "[]"]
  have "(if keptGames sample_parsed [''World'', ''usa''] = [] then Inl NoGamesMatch
      else
        (let decorated =
               (if canonicalSelections [''World'', ''usa''] = [] then h_name (header sample_parsed)
                else h_name (header sample_parsed) @ '' (''
                     @ join '', '' (canonicalSelections [''World'', ''usa'']) @ '')'')
         in Inr ((header sample_parsed)
              \<lparr>h_name := decorated,
               h_description :=
                 Some (decorated @ '' - ''
                       @ (if descriptor sample_parsed = [] then ''Datfile''
                          else descriptor sample_parsed)
                       @ '' ('' @ decimal (length (keptGames sample_parsed [''World'', ''usa'']))
                       @ '') (''
                       @ (case h_version (header sample_parsed) of
                            Some v \<Rightarrow> v
                          | None \<Rightarrow> (case h_date (header sample_parsed) of
                                       Some d \<Rightarrow> d
                                     | None \<Rightarrow> isoDate sample_now))
                       @ '')'')\<rparr>)))
    = Inr ((header sample_parsed)
             \<lparr>h_name := ''Sega - Saturn (World, USA)'',
              h_description := Some ''Sega - Saturn (World, USA) - Datfile (1) (2025-11-07)''\<rparr>)"
    by code_simp
  with sel have 1: "map_sum id r_header (filterDatByRegions sample_now sample_parsed [''World'', ''usa'']) =
       Inr ((header sample_parsed)
             \<lparr>h_name := ''Sega - Saturn (World, USA)'',
              h_description := Some ''Sega - Saturn (World, USA) - Datfile (1) (2025-11-07)''\<rparr>)"
    by (rule trans)
  have "(if keptGames sample_parsed [] = [] then Inl NoGamesMatch
      else
        (let decorated =
               (if canonicalSelections [] = [] then h_name (header sample_parsed)
                else h_name (header sample_parsed) @ '' (''
                     @ join '', '' (canonicalSelections []) @ '')'')
         in Inr ((header sample_parsed)
              \<lparr>h_name := decorated,
               h_description :=
                 Some (decorated @ '' - ''
                       @ (if descriptor sample_parsed = [] then ''Datfile''
                          else descriptor sample_parsed)
                       @ '' ('' @ decimal (length (keptGames sample_parsed []))
                       @ '') (''
                       @ (case h_version (header sample_parsed) of
                            Some v \<Rightarrow> v
                          | None \<Rightarrow> (case h_date (header sample_parsed) of
                                       Some d \<Rightarrow> d
                                     | None \<Rightarrow> isoDate sample_now))
                       @ '')'')\<rparr>)))
    = Inr ((header sample_parsed)
             \<lparr>h_name := ''Sega - Saturn'',
              h_description := Some ''Sega - Saturn - Datfile (3) (2025-11-07)''\<rparr>)"
    by code_simp
  with all have 2: "map_sum id r_header (filterDatByRegions sample_now sample_parsed []) =
       Inr ((header sample_parsed)
             \<lparr>h_name := ''Sega - Saturn'',
              h_description := Some ''Sega - Saturn - Datfile (3) (2025-11-07)''\<rparr>)"
    by (rule trans)
  from sample_parsed_is_parsed 1 2 show ?thesis by (intro conjI)
qed

theorem rebuilt_header_empty_descriptor_counterexample:
  "parseDat codeUnitCompare blank_tree = Inr blank_parsed
   \<and> descriptor blank_parsed = []
   \<and> map_sum id (h_description \<circ> r_header) (filterDatByRegions sample_now blank_parsed [])
       = Inr (Some ''Sega - Saturn - Datfile (1) (2026-11-03)'')
   \<and> map_sum id (h_description \<circ> r_header) (filterDatByRegions sample_now blank_parsed [])
       \<noteq> Inr (Some (h_name (header blank_parsed) @ '' - '' @ descriptor blank_parsed
                     @ '' ('' @ decimal 1 @ '') ('' @ isoDate sample_now @ '')''))"
  by code_simp

text \<open>
  \<^bold>\<open>C9.\<close> When the anchored pattern yields nothing and the looser pattern does not match,
  the generic descriptor is the literal \<^verbatim>\<open>Datfile\<close> if the description mentions
  \<^verbatim>\<open>datfile\<close> in any letter case and there is none otherwise, and in both cases the
  derived original and normalized descriptors are \<^verbatim>\<open>Datfile\<close>. Normalization takes a label
  that contains \<^verbatim>\<open>datfile\<close> or \<^verbatim>\<open>disc\<close> in any letter case to \<^verbatim>\<open>Datfile\<close> and leaves every
  other label as it is; the normalized descriptor is the normalization of the original
  one. "Contains in any letter case" is: some part of the string equals the word after
  upper-casing the ASCII letters of both.
\<close>

theorem descriptor_fallback_and_normalization:
  "(tryExtractDescriptor d (h_name hdr) n = None
      \<and> rx_search generic_pattern d = None
      \<and> d = (case h_description hdr of Some x \<Rightarrow> x | None \<Rightarrow> [])
      \<longrightarrow> extractGenericDescriptor d = (if test_ci ''datfile'' d then Some ''Datfile'' else None)
          \<and> deriveDescriptors hdr n = (''Datfile'', ''Datfile''))
   \<and> normalizeDescriptorLabel label =
       (if test_ci ''datfile'' label \<or> test_ci ''disc'' label then ''Datfile'' else label)
   \<and> snd (deriveDescriptors hdr n) = normalizeDescriptorLabel (fst (deriveDescriptors hdr n))
   \<and> (test_ci pat s \<longleftrightarrow>
        (\<exists>pre mid post. s = pre @ mid @ post \<and> map asciiUpper mid = map asciiUpper pat))"
proof (intro conjI impI)
  assume a: "tryExtractDescriptor d (h_name hdr) n = None
      \<and> rx_search generic_pattern d = None
      \<and> d = (case h_description hdr of Some x \<Rightarrow> x | None \<Rightarrow> [])"
  from a have anchored: "tryExtractDescriptor d (h_name hdr) n = None" by (rule conjunct1)
  from a have loose: "rx_search generic_pattern d = None" by (elim conjE)
  from a have descr: "d = (case h_description hdr of Some x \<Rightarrow> x | None \<Rightarrow> [])" by (elim conjE)
  show "extractGenericDescriptor d = (if test_ci ''datfile'' d then Some ''Datfile'' else None)"
    by (rule extractGenericDescriptor_unmatched [OF loose])
  show "deriveDescriptors hdr n = (''Datfile'', ''Datfile'')"
    by (rule deriveDescriptors_unmatched [OF anchored loose descr])
next
  show "normalizeDescriptorLabel label =
       (if test_ci ''datfile'' label \<or> test_ci ''disc'' label then ''Datfile'' else label)"
    by (rule normalizeDescriptorLabel_eq)
next
  show "snd (deriveDescriptors hdr n) = normalizeDescriptorLabel (fst (deriveDescriptors hdr n))"
    by (rule deriveDescriptors_normalized)
next
  show "test_ci pat s \<longleftrightarrow>
        (\<exists>pre mid post. s = pre @ mid @ post \<and> map asciiUpper mid = map asciiUpper pat)"
    by (rule test_ci_iff)
qed

theorem descriptor_fallback_and_normalization_witness:
  "tryExtractDescriptor ''Redump DATFILE collection'' (h_name mention_header) 3 = None
   \<and> rx_search generic_pattern ''Redump DATFILE collection'' = None
   \<and> ''Redump DATFILE collection''
       = (case h_description mention_header of Some x \<Rightarrow> x | None \<Rightarrow> [])
   \<and> test_ci ''datfile'' ''Redump DATFILE collection''
   \<and> extractGenericDescriptor ''Redump DATFILE collection'' = Some ''Datfile''
   \<and> deriveDescriptors mention_header 3 = (''Datfile'', ''Datfile'')
   \<and> tryExtractDescriptor ''Catalog of games'' (h_name plain_header) 3 = None
   \<and> rx_search generic_pattern ''Catalog of games'' = None
   \<and> ''Catalog of games'' = (case h_description plain_header of Some x \<Rightarrow> x | None \<Rightarrow> [])
   \<and> \<not> test_ci ''datfile'' ''Catalog of games''
   \<and> extractGenericDescriptor ''Catalog of games'' = None
   \<and> deriveDescriptors plain_header 3 = (''Datfile'', ''Datfile'')
   \<and> normalizeDescriptorLabel ''Multi-DISC Set'' = ''Datfile''
   \<and> normalizeDescriptorLabel ''Cuesheets'' = ''Cuesheets''"
proof -
  have a1: "tryExtractDescriptor ''Redump DATFILE collection'' (h_name mention_header) 3 = None"
    by code_simp
  have l1: "rx_search generic_pattern ''Redump DATFILE collection'' = None" by code_simp
  have d1: "''Redump DATFILE collection''
       = (case h_description mention_header of Some x \<Rightarrow> x | None \<Rightarrow> [])" by code_simp
  have m1: "test_ci ''datfile'' ''Redump DATFILE collection''" by code_simp
  have a2: "tryExtractDescriptor ''Catalog of games'' (h_name plain_header) 3 = None"
    by code_simp
  have l2: "rx_search generic_pattern ''Catalog of games'' = None" by code_simp
  have d2: "''Catalog of games'' = (case h_description plain_header of Some x \<Rightarrow> x | None \<Rightarrow> [])"
    by code_simp
  have m2: "\<not> test_ci ''datfile'' ''Catalog of games''" by code_simp
  have t3: "test_ci ''datfile'' ''Multi-DISC Set'' \<or> test_ci ''disc'' ''Multi-DISC Set''"
    by code_simp
  have t4: "\<not> (test_ci ''datfile'' ''Cuesheets'' \<or> test_ci ''disc'' ''Cuesheets'')"
    by code_simp
  note mention = descriptor_fallback_and_normalization [where d = "''Redump DATFILE collection''" and hdr = mention_header and n = 3,
      THEN conjunct1, THEN mp, OF conjI [OF a1 conjI [OF l1 d1]]]
  note plain = descriptor_fallback_and_normalization [where d = "''Catalog of games''" and hdr = plain_header and n = 3,
      THEN conjunct1, THEN mp, OF conjI [OF a2 conjI [OF l2 d2]]]
  note disc = descriptor_fallback_and_normalization [where label = "''Multi-DISC Set''", THEN conjunct2, THEN conjunct1]
  note cue = descriptor_fallback_and_normalization [where label = "''Cuesheets''", THEN conjunct2, THEN conjunct1]
  from mention m1 have g1: "extractGenericDescriptor ''Redump DATFILE collection'' = Some ''Datfile''"
    by simp
  from mention have r1: "deriveDescriptors mention_header 3 = (''Datfile'', ''Datfile'')"
    by (rule conjunct2)
  from plain m2 have g2: "extractGenericDescriptor ''Catalog of games'' = None" by simp
  from plain have r2: "deriveDescriptors plain_header 3 = (''Datfile'', ''Datfile'')"
    by (rule conjunct2)
  from disc t3 have n3: "normalizeDescriptorLabel ''Multi-DISC Set'' = ''Datfile''"
    by (simp only: if_True)
  from cue t4 have n4: "normalizeDescriptorLabel ''Cuesheets'' = ''Cuesheets''"
    by (simp only: if_False)
  from a1 l1 d1 m1 g1 r1 a2 l2 d2 m2 g2 r2 n3 n4 show ?thesis by (intro conjI)
qed

text \<open>
  \<^bold>\<open>C10.\<close> \<^verbatim>\<open>Unknown\<close> is a canonical label that token normalization accepts. An entry
  whose first recognized parenthesized group is \<^verbatim>\<open>(Unknown)\<close> has the region set
  \<^verbatim>\<open>["Unknown"]\<close>; a selection that contains \<^verbatim>\<open>Unknown\<close> keeps such an entry and returns
  it, and keeps no entry with zero regions.
\<close>

theorem unknown_is_a_region_label:
  "normalizeRegionToken ''Unknown'' = Some ''Unknown''
   \<and> ''Unknown'' \<in> set CANONICAL_REGIONS
   \<and> (paren_groups s = pre @ ''Unknown'' # post \<and> (\<forall>h \<in> set pre. recognizedLabels h = [])
        \<longrightarrow> extractRegions (Some s) = Some [''Unknown''])
   \<and> (get_prop rawGame ''@_name'' = Some (RStr s)
        \<and> paren_groups s = pre @ ''Unknown'' # post \<and> (\<forall>h \<in> set pre. recognizedLabels h = [])
        \<longrightarrow> g_regions (normalizeGame rawGame) = [''Unknown''])
   \<and> (''Unknown'' \<in> set sel \<and> g \<in> set (games p) \<and> g_regions g = [''Unknown'']
        \<longrightarrow> g \<in> set (keptGames p sel)
            \<and> map_sum id r_games (filterDatByRegions now p sel) = Inr (keptGames p sel))
   \<and> (''Unknown'' \<in> set sel \<and> g_regions g = [] \<longrightarrow> g \<notin> set (keptGames p sel))
   \<and> map_sum id r_games (filterDatByRegions now p sel) =
        (if keptGames p sel = [] then Inl NoGamesMatch else Inr (keptGames p sel))"
proof (intro conjI impI)
  show "normalizeRegionToken ''Unknown'' = Some ''Unknown''" by (rule normalize_Unknown)
next
  show "''Unknown'' \<in> set CANONICAL_REGIONS"
    by (simp add: CANONICAL_REGIONS_def set_add_def DEFAULT_REGION_def)
next
  assume a: "paren_groups s = pre @ ''Unknown'' # post \<and> (\<forall>h \<in> set pre. recognizedLabels h = [])"
  then show "extractRegions (Some s) = Some [''Unknown'']"
    using extractRegions_first [of s pre "''Unknown''" post]
    by (simp add: recognized_Unknown uniq_single)
next
  assume a: "get_prop rawGame ''@_name'' = Some (RStr s)
        \<and> paren_groups s = pre @ ''Unknown'' # post \<and> (\<forall>h \<in> set pre. recognizedLabels h = [])"
  then have "extractRegions (Some s) = Some [''Unknown'']"
    using extractRegions_first [of s pre "''Unknown''" post]
    by (simp add: recognized_Unknown uniq_single)
  with a show "g_regions (normalizeGame rawGame) = [''Unknown'']"
    by (simp add: normalizeGame_def)
next
  assume a: "''Unknown'' \<in> set sel \<and> g \<in> set (games p) \<and> g_regions g = [''Unknown'']"
  then have sel: "''Unknown'' \<in> set (canonicalSelections sel)"
    using canonicalSelections_member [OF normalize_Unknown] by simp
  then have active: "canonicalSelections sel \<noteq> []" by auto
  from a sel show kept: "g \<in> set (keptGames p sel)"
    by (simp add: keptGames_active [OF active])
  then have "keptGames p sel \<noteq> []" by auto
  then show "map_sum id r_games (filterDatByRegions now p sel) = Inr (keptGames p sel)"
    by (simp add: filter_games_total)
next
  assume a: "''Unknown'' \<in> set sel \<and> g_regions g = []"
  then have sel: "''Unknown'' \<in> set (canonicalSelections sel)"
    using canonicalSelections_member [OF normalize_Unknown] by simp
  then have active: "canonicalSelections sel \<noteq> []" by auto
  from a show "g \<notin> set (keptGames p sel)"
    by (simp add: keptGames_active [OF active])
next
  show "map_sum id r_games (filterDatByRegions now p sel) =
        (if keptGames p sel = [] then Inl NoGamesMatch else Inr (keptGames p sel))"
    by (rule filter_games_total)
qed

theorem unknown_is_a_region_label_witness:
  "get_prop raw_charlie ''@_name'' = Some (RStr ''Charlie (Unknown)'')
   \<and> paren_groups ''Charlie (Unknown)'' = [] @ ''Unknown'' # []
   \<and> extractRegions (Some ''Charlie (Unknown)'') = Some [''Unknown'']
   \<and> g_regions (normalizeGame raw_charlie) = [''Unknown'']
   \<and> ''Unknown'' \<in> set [''USA'', ''Unknown'']
   \<and> game_charlie \<in> set (games sample_parsed) \<and> g_regions game_charlie = [''Unknown'']
   \<and> game_charlie \<in> set (keptGames sample_parsed [''USA'', ''Unknown''])
   \<and> map_sum id r_games (filterDatByRegions sample_now sample_parsed [''USA'', ''Unknown''])
       = Inr (keptGames sample_parsed [''USA'', ''Unknown''])
   \<and> g_regions game_alpha = []
   \<and> game_alpha \<notin> set (keptGames sample_parsed [''USA'', ''Unknown''])"
proof -
  have name: "get_prop raw_charlie ''@_name'' = Some (RStr ''Charlie (Unknown)'')"
    by code_simp
  have groups: "paren_groups ''Charlie (Unknown)'' = [] @ ''Unknown'' # []" by code_simp
  have pre: "\<forall>h \<in> set []. recognizedLabels h = []" by simp
  have sel: "''Unknown'' \<in> set [''USA'', ''Unknown'']" by simp
  have member: "game_charlie \<in> set (games sample_parsed)" by code_simp
  have tagged: "g_regions game_charlie = [''Unknown'']" by code_simp
  have zero: "g_regions game_alpha = []" by code_simp
  note charlie = unknown_is_a_region_label [of "''Charlie (Unknown)''" "[]" "[]" raw_charlie "[''USA'', ''Unknown'']"
      game_charlie sample_parsed sample_now]
  note alpha = unknown_is_a_region_label [of "''Charlie (Unknown)''" "[]" "[]" raw_charlie "[''USA'', ''Unknown'']"
      game_alpha sample_parsed sample_now]
  show ?thesis
    using charlie alpha name groups pre sel member tagged zero by blast
qed

end
